theory Spec2Isabelle
  imports Main "HOL-Library.Word"
begin

section \<open>Values shared by the read node and the endpoint\<close>

text \<open>
  Errors are values. \<open>Err s\<close> is an error created with \<open>errors.New(s)\<close> or handed back
  by a collaborator (shared client, JSON codec, batched read) with message \<open>s\<close>.
  \<open>Errorf_read_failed errs\<close> is \<open>fmt.Errorf("read failed: %q ", errs)\<close>: the error whose text
  is the quoted rendering of the string slice \<open>errs\<close>.
\<close>

datatype error = Err string | Errorf_read_failed "string list"

text \<open>The two run-time panics the decoding loop of \<open>ReadNode.OnMsg\<close> can raise.\<close>

datatype panic = NilPointerDereference | IndexOutOfRange

text \<open>
  \<open>ua.StatusCode\<close> is an unsigned 32-bit integer, \<open>ua.StatusOK\<close> is zero. A \<open>time.Time\<close> is
  kept as a number of ticks. The dynamically typed payload of a variant (\<open>interface{}\<close>) is a
  small tagged union; \<open>Float64_NaN\<close> stands for the one floating point payload that the JSON
  encoder refuses.
\<close>

type_synonym StatusCode = "32 word"

definition StatusOK :: StatusCode where
  "StatusOK = 0"

type_synonym Time = int

datatype any = Null | Int64 int | String string | Boolean bool | Float64_NaN

text \<open>
  \<open>ua.DataValue\<close>: one slot of \<open>resp.Results\<close>. The slot is a pointer, so a slot is a
  \<open>DataValue option\<close> and \<open>None\<close> is the nil pointer. \<open>Value\<close> holds what
  \<open>result.Value.Value()\<close> returns.
\<close>

record DataValue =
  Value :: any
  Status :: StatusCode
  SourceTimestamp :: Time
  ServerTimestamp :: Time

text \<open>
  \<open>opcuaClient.Data\<close>, with the fields that \<open>ReadNode.OnMsg\<close> fills.
\<close>

record Data =
  DisplayName :: string
  NodeId :: string
  RecordTime :: Time
  SourceTime :: Time
  DValue :: any
  Quality :: "32 word"
  Timestamp :: Time

section \<open>The read node: \<open>ReadNode.OnMsg\<close>\<close>

text \<open>
  The collaborators of \<open>OnMsg\<close> that live outside the node are parameters:
  \<^item> \<open>SharedNode_Get\<close>: the result of \<open>x.SharedNode.Get()\<close>, a client handle or an error;
  \<^item> \<open>json_Unmarshal\<close>: \<open>json.Unmarshal\<close> of the message payload into a list of node ids;
  \<^item> \<open>opcua_Read\<close>: \<open>opcuaClient.Read(client, nodeIds)\<close>, the batched read; on success it
    hands back the pre-filled \<open>data\<close> slice and the slots of \<open>resp.Results\<close>;
  \<^item> \<open>Status_Error\<close>: \<open>result.Status.Error()\<close>, the text of a status code;
  \<^item> \<open>ParseValue\<close>: \<open>d.ParseValue()\<close>, which updates the reading in place (its two results
    are discarded by the caller);
  \<^item> \<open>time_Now\<close>: the clock read in the loop iteration with the given index;
  \<^item> \<open>json_Marshal\<close>: \<open>Some err\<close> when \<open>json.Marshal(data)\<close> fails; otherwise the payload of
    the outgoing message is the JSON text of the list, represented by the list itself.
\<close>

type_synonym Client = nat

record ReadEnv =
  SharedNode_Get :: "error + Client"
  json_Unmarshal :: "string \<Rightarrow> error + string list"
  opcua_Read :: "Client \<Rightarrow> string list \<Rightarrow> error + (Data list \<times> DataValue option list)"
  Status_Error :: "StatusCode \<Rightarrow> string"
  ParseValue :: "Data \<Rightarrow> Data"
  time_Now :: "nat \<Rightarrow> Time"
  json_Marshal :: "Data list \<Rightarrow> error option"

text \<open>What \<open>OnMsg\<close> tells the rule context, or the panic it dies with.\<close>

datatype outcome = TellSuccess "Data list" | TellFailure error | Panic panic

text \<open>The guard of the loop body: \<open>result != nil && result.Status != ua.StatusOK\<close>.\<close>

definition status_failed :: "DataValue option \<Rightarrow> bool" where
  "status_failed result =
     (case result of None \<Rightarrow> False | Some r \<Rightarrow> Status r \<noteq> StatusOK)"

text \<open>
  The \<open>else\<close> branch builds the reading \<open>d\<close> for slot \<open>i\<close>. \<open>data[i]\<close> is read first and
  panics when \<open>i\<close> is out of range; then the fields of \<open>result\<close> are read, which panics on a
  nil pointer.
\<close>

definition reading :: "ReadEnv \<Rightarrow> nat \<Rightarrow> Data \<Rightarrow> DataValue \<Rightarrow> Data" where
  "reading E i old r =
     ParseValue E
       \<lparr> DisplayName = DisplayName old,
         NodeId = NodeId old,
         RecordTime = ServerTimestamp r,
         SourceTime = SourceTimestamp r,
         DValue = Value r,
         Quality = Status r,
         Timestamp = time_Now E i \<rparr>"

definition decode_slot ::
  "ReadEnv \<Rightarrow> nat \<Rightarrow> Data list \<Rightarrow> DataValue option \<Rightarrow> panic + Data" where
  "decode_slot E i data result =
     (if \<not> i < length data then Inl IndexOutOfRange
      else case result of
        None \<Rightarrow> Inl NilPointerDereference
      | Some r \<Rightarrow> Inr (reading E i (data ! i) r))"

text \<open>
  The loop \<open>for i, result := range resp.Results\<close>, as a recursion over the remaining slots
  with the loop variables \<open>data\<close>, \<open>succ\<close> and \<open>errs\<close> threaded through.
\<close>

fun OnMsg_loop ::
  "ReadEnv \<Rightarrow> nat \<Rightarrow> DataValue option list \<Rightarrow> Data list \<times> bool \<times> string list
     \<Rightarrow> panic + (Data list \<times> bool \<times> string list)" where
  "OnMsg_loop E i [] st = Inr st"
| "OnMsg_loop E i (result # rest) (data, succ, errs) =
     (if status_failed result then
        OnMsg_loop E (Suc i) rest
          (data, succ,
           if length errs < 10
           then errs @ [Status_Error E (Status (the result))]
           else errs)
      else
        (case decode_slot E i data result of
           Inl p \<Rightarrow> Inl p
         | Inr d \<Rightarrow> OnMsg_loop E (Suc i) rest (data[i := d], True, errs)))"

text \<open>\<open>errs := make([]string, 10)\<close>: a slice of length ten holding ten empty strings.\<close>

definition make_errs :: "string list" where
  "make_errs = replicate 10 []"

definition OnMsg :: "ReadEnv \<Rightarrow> string \<Rightarrow> outcome" where
  "OnMsg E msgData =
     (case SharedNode_Get E of
        Inl err \<Rightarrow> TellFailure err
      | Inr client \<Rightarrow>
     (case json_Unmarshal E msgData of
        Inl err \<Rightarrow> TellFailure err
      | Inr nodeIds \<Rightarrow>
     (case opcua_Read E client nodeIds of
        Inl err \<Rightarrow> TellFailure err
      | Inr (data, results) \<Rightarrow>
     (case OnMsg_loop E 0 results (data, False, make_errs) of
        Inl p \<Rightarrow> Panic p
      | Inr (data', succ, errs) \<Rightarrow>
          if succ then
            (case json_Marshal E data' of
               Some err \<Rightarrow> TellFailure err
             | None \<Rightarrow> TellSuccess data')
          else TellFailure (Errorf_read_failed errs)))))"

section \<open>The endpoint: \<open>OpcUa\<close>\<close>

subsection \<open>The scheduling primitive\<close>

text \<open>
  Modelled from the spec: the cron-style scheduling primitive (\<open>cron.Cron\<close> of the scheduling
  library, which the sources only call). A scheduler is created stopped and empty;
  registering a callback validates the interval expression and, when it is valid, records
  the callback under a fresh, non-zero entry handle; an invalid expression registers
  nothing and yields handle \<open>0\<close> with an error; \<open>Start\<close> begins firing the registered
  entries, \<open>Stop\<close> ends firing, \<open>Remove\<close> cancels the entry with the given handle.
  The validity check is the parameter \<open>parse\<close>.
\<close>

type_synonym EntryID = int

record Cron =
  running :: bool
  entries :: "EntryID list"
  nextID :: EntryID

definition cron_New :: Cron where
  "cron_New = \<lparr> running = False, entries = [], nextID = 0 \<rparr>"

definition cron_AddFunc ::
  "(string \<Rightarrow> error option) \<Rightarrow> string \<Rightarrow> Cron \<Rightarrow> (EntryID \<times> error option) \<times> Cron" where
  "cron_AddFunc parse spec c =
     (case parse spec of
        Some err \<Rightarrow> ((0, Some err), c)
      | None \<Rightarrow>
          ((nextID c + 1, None),
           c\<lparr> entries := entries c @ [nextID c + 1], nextID := nextID c + 1 \<rparr>))"

definition cron_Start :: "Cron \<Rightarrow> Cron" where
  "cron_Start c = c\<lparr> running := True \<rparr>"

definition cron_Stop :: "Cron \<Rightarrow> Cron" where
  "cron_Stop c = c\<lparr> running := False \<rparr>"

definition cron_Remove :: "EntryID \<Rightarrow> Cron \<Rightarrow> Cron" where
  "cron_Remove eid c = c\<lparr> entries := filter (\<lambda>e. e \<noteq> eid) (entries c) \<rparr>"

subsection \<open>The shared connection manager\<close>

text \<open>
  Modelled from the spec: the Shared Connection Manager (\<open>base.SharedNode\<close> of the host rule
  engine, which the sources only call). It owns at most one live connection, constructed
  lazily by the registered constructor on the first acquire and handed out unchanged
  afterwards; a failed construction leaves no connection behind. Its close is a no-op
  returning no error when no connection exists or after it has been closed; otherwise it
  runs the registered close function on the connection once and forgets the connection.
\<close>

record SharedNode =
  isInit :: bool
  client :: "Client option"

definition SharedNode_IsInit :: "SharedNode \<Rightarrow> bool" where
  "SharedNode_IsInit sn = isInit sn"

definition SharedNode_InitWithClose :: "SharedNode \<Rightarrow> error option \<times> SharedNode" where
  "SharedNode_InitWithClose sn = (None, sn\<lparr> isInit := True \<rparr>)"

definition SharedNode_GetSafely ::
  "(error + Client) \<Rightarrow> SharedNode \<Rightarrow> (error + Client) \<times> SharedNode" where
  "SharedNode_GetSafely construct sn =
     (case client sn of
        Some c \<Rightarrow> (Inr c, sn)
      | None \<Rightarrow>
          (case construct of
             Inl err \<Rightarrow> (Inl err, sn)
           | Inr c \<Rightarrow> (Inr c, sn\<lparr> client := Some c \<rparr>)))"

definition SharedNode_Close ::
  "(Client option \<Rightarrow> nat \<Rightarrow> error option \<times> nat) \<Rightarrow> SharedNode \<Rightarrow> nat
     \<Rightarrow> error option \<times> SharedNode \<times> nat" where
  "SharedNode_Close closeFn sn td =
     (case client sn of
        None \<Rightarrow> (None, sn, td)
      | Some c \<Rightarrow>
          (case closeFn (Some c) td of
             (err, td') \<Rightarrow> (err, sn\<lparr> client := None \<rparr>, td')))"

subsection \<open>The adapter\<close>

text \<open>
  The collaborators of the endpoint are parameters:
  \<^item> \<open>cron_Parse\<close>: the scheduler's check of an interval expression;
  \<^item> \<open>initClient\<close>: the result of \<open>x.initClient()\<close>, a fresh connection or an error;
  \<^item> \<open>client_Close\<close>: the session teardown \<open>client.Close(ctx)\<close> and the error it returns;
  \<^item> \<open>ep_Read\<close>: \<open>opcuaClient.Read(client, x.Config.NodeIds)\<close>;
  \<^item> \<open>DoProcess_panics\<close>: whether the downstream processing of an exchange panics.
\<close>

datatype Router = RouterWithId (GetId: string)

record Exchange =
  In_data :: "Data list"
  Out_data :: "Data list"

record EpEnv =
  cron_Parse :: "string \<Rightarrow> error option"
  initClient :: "error + Client"
  client_Close :: "Client \<Rightarrow> error option"
  ep_Read :: "Client \<Rightarrow> string list \<Rightarrow> error + (Data list \<times> DataValue option list)"
  DoProcess_panics :: "Router \<Rightarrow> Exchange \<Rightarrow> bool"

text \<open>
  The state of one adapter. The first block is the struct \<open>OpcUa\<close>: its configuration, the
  route slot, the pointer \<open>cronTask\<close> (an address in \<open>crons\<close>, \<open>None\<close> for nil), the entry
  handle \<open>taskId\<close>, the embedded shared connection manager and the active-operation counter
  of the embedded shutdown coordinator. The second block is what the adapter acts on: the
  store of every scheduler object created so far (an address is an index), the number of
  session teardowns performed, the exchanges handed to the downstream route, and the calls
  \<open>readNodes\<close> has made to its collaborators, in the order made, each with the value the
  active-operation counter had when the call returned (for the two calls on the counter)
  or was made (for the others).
\<close>

datatype call =
    Call_IncrementActiveOperations
  | Call_DecrementActiveOperations
  | Call_GetSafely
  | Call_Read
  | Call_DoProcess

record OpcUa =
  Server :: string
  Interval :: string
  NodeIds :: "string list"
  Router :: "Router option"
  cronTask :: "nat option"
  taskId :: EntryID
  shared :: SharedNode
  activeOperations :: int
  crons :: "Cron list"
  teardowns :: nat
  processed :: "(Router \<times> Exchange) list"
  calls :: "(call \<times> int) list"

text \<open>\<open>New\<close>: the default configuration, every other field at its zero value.\<close>

definition New :: OpcUa where
  "New =
     \<lparr> Server = ''opc.tcp://localhost:4840'',
       Interval = ''@every 1m'',
       NodeIds = [],
       Router = None,
       cronTask = None,
       taskId = 0,
       shared = \<lparr> isInit = False, client = None \<rparr>,
       activeOperations = 0,
       crons = [],
       teardowns = 0,
       processed = [],
       calls = [] \<rparr>"

text \<open>A method call through the pointer \<open>x.cronTask\<close>: the object at that address is updated.\<close>

definition on_cron :: "nat \<Rightarrow> (Cron \<Rightarrow> Cron) \<Rightarrow> OpcUa \<Rightarrow> OpcUa" where
  "on_cron a f x = x\<lparr> crons := (crons x)[a := f (crons x ! a)] \<rparr>"

text \<open>
  The close function registered with the shared connection manager in \<open>Init\<close> and \<open>Start\<close>:
  \<open>if client != nil { return client.Close(ctx) }; return nil\<close>. The counter passed through
  counts the session teardowns.
\<close>

definition close_client :: "EpEnv \<Rightarrow> Client option \<Rightarrow> nat \<Rightarrow> error option \<times> nat" where
  "close_client P cl td =
     (case cl of
        Some c \<Rightarrow> (client_Close P c, Suc td)
      | None \<Rightarrow> (None, td))"

definition Close :: "EpEnv \<Rightarrow> OpcUa \<Rightarrow> error option \<times> OpcUa" where
  "Close P x =
     (let x1 = (case cronTask x of
                  Some a \<Rightarrow> if taskId x \<noteq> 0 then on_cron a (cron_Remove (taskId x)) x else x
                | None \<Rightarrow> x);
          x2 = (case cronTask x1 of
                  Some a \<Rightarrow> on_cron a cron_Stop x1
                | None \<Rightarrow> x1)
      in case SharedNode_Close (close_client P) (shared x2) (teardowns x2) of
           (_, sn, td) \<Rightarrow> (None, x2\<lparr> shared := sn, teardowns := td \<rparr>))"

definition AddRouter :: "Router option \<Rightarrow> OpcUa \<Rightarrow> (error + string) \<times> OpcUa" where
  "AddRouter router x =
     (case router of
        None \<Rightarrow> (Inl (Err ''router cannot be nil''), x)
      | Some r \<Rightarrow>
          if Router x \<noteq> None then (Inl (Err ''duplicate router''), x)
          else (Inr (GetId r), x\<lparr> Router := Some r \<rparr>))"

definition RemoveRouter :: "string \<Rightarrow> OpcUa \<Rightarrow> error option \<times> OpcUa" where
  "RemoveRouter routerId x = (None, x\<lparr> Router := None \<rparr>)"

text \<open>
  \<open>Start\<close>. The error of \<open>InitWithClose\<close> is overwritten by the one of \<open>AddFunc\<close>, which is
  what \<open>Start\<close> returns. The new scheduler object gets the next free address.
\<close>

definition Start :: "EpEnv \<Rightarrow> OpcUa \<Rightarrow> error option \<times> OpcUa" where
  "Start P x =
     (let x1 = (if \<not> SharedNode_IsInit (shared x)
                then x\<lparr> shared := snd (SharedNode_InitWithClose (shared x)) \<rparr>
                else x);
          x2 = (case cronTask x1 of
                  Some a \<Rightarrow> on_cron a cron_Stop x1
                | None \<Rightarrow> x1);
          a' = length (crons x2);
          x3 = x2\<lparr> crons := crons x2 @ [cron_New], cronTask := Some a' \<rparr>
      in case cron_AddFunc (cron_Parse P) (Interval x3) (crons x3 ! a') of
           ((eid, err), c) \<Rightarrow>
             (err, on_cron a' cron_Start (x3\<lparr> crons := (crons x3)[a' := c], taskId := eid \<rparr>)))"

text \<open>
  Modelled from the spec: the active-operation counter of the embedded shutdown coordinator
  (\<open>base.GracefulShutdown\<close> of the host rule engine, which the sources only call):
  beginning an operation (\<open>IncrementActiveOperations\<close>) increments the counter, ending it
  (\<open>DecrementActiveOperations\<close>) decrements it. Both calls are entered in the log of calls.
\<close>

definition logged :: "call \<Rightarrow> OpcUa \<Rightarrow> OpcUa" where
  "logged c x = x\<lparr> calls := calls x @ [(c, activeOperations x)] \<rparr>"

definition IncrementActiveOperations :: "OpcUa \<Rightarrow> OpcUa" where
  "IncrementActiveOperations x =
     logged Call_IncrementActiveOperations (x\<lparr> activeOperations := activeOperations x + 1 \<rparr>)"

definition DecrementActiveOperations :: "OpcUa \<Rightarrow> OpcUa" where
  "DecrementActiveOperations x =
     logged Call_DecrementActiveOperations (x\<lparr> activeOperations := activeOperations x - 1 \<rparr>)"

text \<open>How a call ends: it returns a value, or it unwinds with a panic.\<close>

datatype 'a completion = Returned 'a | Panicked

text \<open>
  \<open>readNodes\<close> after its first two statements: everything between the increment and the
  deferred decrement.
\<close>

definition readNodes_body :: "EpEnv \<Rightarrow> Router \<Rightarrow> OpcUa \<Rightarrow> error option completion \<times> OpcUa" where
  "readNodes_body P router x =
     (let x0 = logged Call_GetSafely x in
      case SharedNode_GetSafely (initClient P) (shared x0) of
        (Inl err, sn) \<Rightarrow> (Returned (Some err), x0\<lparr> shared := sn \<rparr>)
      | (Inr cl, sn) \<Rightarrow>
          (let x1 = logged Call_Read (x0\<lparr> shared := sn \<rparr>) in
           case ep_Read P cl (NodeIds x1) of
             Inl err \<Rightarrow> (Returned (Some err), x1)
           | Inr (data, resp) \<Rightarrow>
               (let exchange = \<lparr> In_data = data, Out_data = data \<rparr>;
                    x2 = logged Call_DoProcess x1
                in if DoProcess_panics P router exchange
                   then (Panicked, x2)
                   else (Returned None,
                         x2\<lparr> processed := processed x2 @ [(router, exchange)] \<rparr>))))"

text \<open>
  \<open>readNodes\<close>: the increment, the body, and the deferred decrement, which runs when the
  body returns and when it panics.
\<close>

definition readNodes :: "EpEnv \<Rightarrow> Router \<Rightarrow> OpcUa \<Rightarrow> error option completion \<times> OpcUa" where
  "readNodes P router x =
     (case readNodes_body P router (IncrementActiveOperations x) of
        (r, x') \<Rightarrow> (r, DecrementActiveOperations x'))"

text \<open>
  The callback registered by \<open>Start\<close>, run by the scheduler at every tick:
  \<open>if x.Router != nil { _ = x.readNodes(x.Router) }\<close>.
\<close>

definition tick :: "EpEnv \<Rightarrow> OpcUa \<Rightarrow> unit completion \<times> OpcUa" where
  "tick P x =
     (case Router x of
        None \<Rightarrow> (Returned (), x)
      | Some r \<Rightarrow>
          (case readNodes P r x of
             (Returned _, x') \<Rightarrow> (Returned (), x')
           | (Panicked, x') \<Rightarrow> (Panicked, x')))"

text \<open>
  The first two statements of \<open>Close\<close> on their own: the entry is removed and the scheduler
  stopped, through the pointer \<open>cronTask\<close>.
\<close>

definition stop_schedule :: "OpcUa \<Rightarrow> OpcUa" where
  "stop_schedule x =
     (let x1 = (case cronTask x of
                  Some a \<Rightarrow> if taskId x \<noteq> 0 then on_cron a (cron_Remove (taskId x)) x else x
                | None \<Rightarrow> x)
      in case cronTask x1 of
           Some a \<Rightarrow> on_cron a cron_Stop x1
         | None \<Rightarrow> x1)"

text \<open>Calling an operation \<open>n\<close> times in a row, collecting what each call returned.\<close>

fun repeat_op :: "('s \<Rightarrow> 'r \<times> 's) \<Rightarrow> nat \<Rightarrow> 's \<Rightarrow> 'r list \<times> 's" where
  "repeat_op f 0 s = ([], s)"
| "repeat_op f (Suc n) s =
     (case f s of (r, s') \<Rightarrow> (case repeat_op f n s' of (rs, s'') \<Rightarrow> (r # rs, s'')))"

text \<open>The number of schedule entries that fire: the entries of the running schedulers.\<close>

definition active_entries :: "OpcUa \<Rightarrow> nat" where
  "active_entries x = sum_list (map (\<lambda>c. if running c then length (entries c) else 0) (crons x))"

text \<open>The number of schedulers that are running.\<close>

definition running_crons :: "OpcUa \<Rightarrow> nat" where
  "running_crons x = length (filter running (crons x))"

text \<open>
  A state is well formed when \<open>cronTask\<close> points into the store and every scheduler other
  than the one it points to is stopped.
\<close>

definition wf_state :: "OpcUa \<Rightarrow> bool" where
  "wf_state x =
     ((case cronTask x of None \<Rightarrow> True | Some a \<Rightarrow> a < length (crons x)) \<and>
      (\<forall>b < length (crons x). cronTask x \<noteq> Some b \<longrightarrow> \<not> running (crons x ! b)))"

section \<open>A mock transport for concrete runs\<close>

text \<open>
  The status code \<open>StatusBadNodeIDUnknown\<close>, the entry the batched read pre-fills for a node
  id, a slot with good status carrying a value, and a slot with a bad status.
\<close>

definition StatusBadNodeIDUnknown :: StatusCode where
  "StatusBadNodeIDUnknown = 0x80340000"

definition prefilled :: "string \<Rightarrow> Data" where
  "prefilled nid =
     \<lparr> DisplayName = nid, NodeId = nid, RecordTime = 0, SourceTime = 0,
       DValue = Null, Quality = 0, Timestamp = 0 \<rparr>"

definition good_slot :: "any \<Rightarrow> DataValue option" where
  "good_slot v =
     Some \<lparr> Value = v, Status = StatusOK, SourceTimestamp = 5, ServerTimestamp = 6 \<rparr>"

definition bad_slot :: "DataValue option" where
  "bad_slot =
     Some \<lparr> Value = Null, Status = StatusBadNodeIDUnknown,
            SourceTimestamp = 0, ServerTimestamp = 0 \<rparr>"

text \<open>
  A read node whose shared client is live, whose message decodes to \<open>ids\<close>, and whose
  transport answers every batched read with one pre-filled entry per requested id and the
  given result slots. The JSON encoder refuses a list that holds a NaN.
\<close>

definition mock_node :: "string list \<Rightarrow> DataValue option list \<Rightarrow> ReadEnv" where
  "mock_node ids slots =
     \<lparr> SharedNode_Get = Inr 1,
       json_Unmarshal = (\<lambda>payload. Inr ids),
       opcua_Read = (\<lambda>c nodeIds. Inr (map prefilled nodeIds, slots)),
       Status_Error = (\<lambda>st. if st = StatusBadNodeIDUnknown
                             then ''StatusBadNodeIDUnknown (0x80340000)''
                             else ''status''),
       ParseValue = (\<lambda>d. d),
       time_Now = (\<lambda>i. 100),
       json_Marshal = (\<lambda>ds. if Float64_NaN \<in> set (map DValue ds)
                             then Some (Err ''json: unsupported value: NaN'')
                             else None) \<rparr>"

text \<open>The same node with a transport that fails every batched read.\<close>

definition mock_node_down :: "string list \<Rightarrow> ReadEnv" where
  "mock_node_down ids =
     (mock_node ids [])\<lparr> opcua_Read := (\<lambda>c nodeIds. Inl (Err ''EOF'')) \<rparr>"

text \<open>
  Collaborators of an endpoint: the interval \<open>@every 1m\<close> is the only valid expression,
  connecting yields client \<open>1\<close>, teardown returns no error, the batched read answers with
  the given result or fails, and downstream processing does not panic.
\<close>

definition mock_endpoint ::
  "(error + (Data list \<times> DataValue option list)) \<Rightarrow> EpEnv" where
  "mock_endpoint answer =
     \<lparr> cron_Parse = (\<lambda>spec. if spec = ''@every 1m'' then None
                              else Some (Err ''bad interval'')),
       initClient = Inr 1,
       client_Close = (\<lambda>c. None),
       ep_Read = (\<lambda>c nodeIds. answer),
       DoProcess_panics = (\<lambda>r e. False) \<rparr>"

section \<open>Properties of the decoding loop\<close>

lemma make_errs_full: "10 \<le> length make_errs"
  by (simp add: make_errs_def)

lemma loop_all_failed:
  "\<forall>r\<in>set results. status_failed r \<Longrightarrow> 10 \<le> length errs \<Longrightarrow>
     OnMsg_loop E i results (data, succ, errs) = Inr (data, succ, errs)"
  by (induction results arbitrary: i) auto

lemma loop_errs_kept:
  "10 \<le> length errs \<Longrightarrow> OnMsg_loop E i results (data, succ, errs) = Inr (data', succ', errs')
     \<Longrightarrow> errs' = errs"
  by (induction results arbitrary: i data succ) (auto split: sum.splits if_splits)

lemma loop_returns_no_nil:
  "OnMsg_loop E i results (data, succ, errs) = Inr st \<Longrightarrow> None \<notin> set results"
  by (induction results arbitrary: i data succ errs)
     (auto split: sum.splits if_splits option.splits simp: decode_slot_def status_failed_def)

lemma loop_succ:
  "OnMsg_loop E i results (data, succ, errs) = Inr (data', succ', errs') \<Longrightarrow>
     succ' = (succ \<or> (\<exists>r\<in>set results. \<not> status_failed r))"
  by (induction results arbitrary: i data succ errs)
     (auto split: sum.splits if_splits)

lemma loop_nil_panics:
  "None \<in> set results \<Longrightarrow> i + length results \<le> length data \<Longrightarrow>
     OnMsg_loop E i results (data, succ, errs) = Inl NilPointerDereference"
proof (induction results arbitrary: i data succ errs)
  case Nil
  then show ?case by simp
next
  case (Cons result rest)
  show ?case
  proof (cases result)
    case None
    with Cons.prems show ?thesis by (simp add: status_failed_def decode_slot_def)
  next
    case (Some r)
    with Cons.prems have in_rest: "None \<in> set rest" by auto
    from Cons.prems have len: "Suc i + length rest \<le> length data" by simp
    show ?thesis
    proof (cases "status_failed result")
      case True
      with Cons.IH [OF in_rest len] show ?thesis by simp
    next
      case False
      from len have "Suc i + length rest \<le> length (data[i := reading E i (data ! i) r])" by simp
      from Cons.IH [OF in_rest this] False Some len show ?thesis
        by (simp add: decode_slot_def)
    qed
  qed
qed

lemma loop_ok:
  "None \<notin> set results \<Longrightarrow> i + length results \<le> length data \<Longrightarrow>
   \<exists>data' errs'.
     OnMsg_loop E i results (data, succ, errs)
       = Inr (data', succ \<or> (\<exists>r\<in>set results. \<not> status_failed r), errs')
     \<and> length data' = length data
     \<and> (\<forall>k<length results. data' ! (i + k) =
           (if status_failed (results ! k) then data ! (i + k)
            else reading E (i + k) (data ! (i + k)) (the (results ! k))))
     \<and> (\<forall>j<length data. j < i \<or> i + length results \<le> j \<longrightarrow> data' ! j = data ! j)"
proof (induction results arbitrary: i data succ errs)
  case Nil
  then show ?case by simp
next
  case (Cons result rest)
  from Cons.prems obtain r where r: "result = Some r" by (cases result) auto
  from Cons.prems have nn: "None \<notin> set rest" by simp
  show ?case
  proof (cases "status_failed result")
    case True
    let ?errs = "if length errs < 10 then errs @ [Status_Error E (Status (the result))] else errs"
    from Cons.prems have len: "Suc i + length rest \<le> length data" by simp
    from Cons.IH [OF nn len, of succ ?errs]
    obtain data' errs' where
      run: "OnMsg_loop E (Suc i) rest (data, succ, ?errs) =
              Inr (data', succ \<or> (\<exists>r\<in>set rest. \<not> status_failed r), errs')"
      and l: "length data' = length data"
      and inr: "\<forall>k<length rest. data' ! (Suc i + k) =
           (if status_failed (rest ! k) then data ! (Suc i + k)
            else reading E (Suc i + k) (data ! (Suc i + k)) (the (rest ! k)))"
      and out: "\<forall>j<length data. j < Suc i \<or> Suc i + length rest \<le> j \<longrightarrow> data' ! j = data ! j"
      by blast
    have a: "OnMsg_loop E i (result # rest) (data, succ, errs) =
              Inr (data', succ \<or> (\<exists>r\<in>set (result # rest). \<not> status_failed r), errs')"
      using True run by simp
    have b: "\<forall>k<length (result # rest). data' ! (i + k) =
           (if status_failed ((result # rest) ! k) then data ! (i + k)
            else reading E (i + k) (data ! (i + k)) (the ((result # rest) ! k)))"
    proof (intro allI impI)
      fix k assume k: "k < length (result # rest)"
      show "data' ! (i + k) =
           (if status_failed ((result # rest) ! k) then data ! (i + k)
            else reading E (i + k) (data ! (i + k)) (the ((result # rest) ! k)))"
      proof (cases k)
        case 0
        with True out len show ?thesis by simp
      next
        case (Suc k')
        with k inr show ?thesis by simp
      qed
    qed
    have c: "\<forall>j<length data. j < i \<or> i + length (result # rest) \<le> j \<longrightarrow> data' ! j = data ! j"
      using out by simp
    from a l b c show ?thesis by blast
  next
    case False
    from Cons.prems have i: "i < length data" by simp
    let ?d = "reading E i (data ! i) r"
    let ?data = "data[i := ?d]"
    from Cons.prems have len: "Suc i + length rest \<le> length ?data" by simp
    from Cons.IH [OF nn len, of True errs]
    obtain data' errs' where
      run: "OnMsg_loop E (Suc i) rest (?data, True, errs) = Inr (data', True, errs')"
      and l: "length data' = length ?data"
      and inr: "\<forall>k<length rest. data' ! (Suc i + k) =
           (if status_failed (rest ! k) then ?data ! (Suc i + k)
            else reading E (Suc i + k) (?data ! (Suc i + k)) (the (rest ! k)))"
      and out: "\<forall>j<length ?data. j < Suc i \<or> Suc i + length rest \<le> j \<longrightarrow> data' ! j = ?data ! j"
      by auto
    have a: "OnMsg_loop E i (result # rest) (data, succ, errs) =
              Inr (data', succ \<or> (\<exists>r\<in>set (result # rest). \<not> status_failed r), errs')"
      using False run i r by (auto simp: decode_slot_def)
    have b: "\<forall>k<length (result # rest). data' ! (i + k) =
           (if status_failed ((result # rest) ! k) then data ! (i + k)
            else reading E (i + k) (data ! (i + k)) (the ((result # rest) ! k)))"
    proof (intro allI impI)
      fix k assume k: "k < length (result # rest)"
      show "data' ! (i + k) =
           (if status_failed ((result # rest) ! k) then data ! (i + k)
            else reading E (i + k) (data ! (i + k)) (the ((result # rest) ! k)))"
      proof (cases k)
        case 0
        with False out i r show ?thesis by simp
      next
        case (Suc k')
        with k inr show ?thesis by simp
      qed
    qed
    have c: "\<forall>j<length data. j < i \<or> i + length (result # rest) \<le> j \<longrightarrow> data' ! j = data ! j"
      using out by auto
    from a l b c show ?thesis by auto
  qed
qed

lemma good_slot_ok:
  "(\<not> status_failed r \<and> r \<noteq> None) = (\<exists>v. r = Some v \<and> Status v = StatusOK)"
  by (cases r) (auto simp: status_failed_def)

lemma loop_ok0:
  assumes nn: "None \<notin> set results" and len: "length results \<le> length data"
  shows "\<exists>data' errs'.
     OnMsg_loop E 0 results (data, succ, errs)
       = Inr (data', succ \<or> (\<exists>r\<in>set results. \<not> status_failed r), errs')
     \<and> length data' = length data
     \<and> (\<forall>k<length results. data' ! k =
           (if status_failed (results ! k) then data ! k
            else reading E k (data ! k) (the (results ! k))))
     \<and> (\<forall>j<length data. length results \<le> j \<longrightarrow> data' ! j = data ! j)"
proof -
  from len have "0 + length results \<le> length data" by simp
  from loop_ok [OF nn this, of E succ errs] show ?thesis by (simp only: add_0 not_less_zero simp_thms)
qed

lemma OnMsg_after_read:
  assumes "SharedNode_Get E = Inr c"
    and "json_Unmarshal E msgData = Inr nodeIds"
    and "opcua_Read E c nodeIds = Inr (data, results)"
  shows "OnMsg E msgData =
     (case OnMsg_loop E 0 results (data, False, make_errs) of
        Inl p \<Rightarrow> Panic p
      | Inr (data', succ, errs) \<Rightarrow>
          if succ then
            (case json_Marshal E data' of
               Some err \<Rightarrow> TellFailure err
             | None \<Rightarrow> TellSuccess data')
          else TellFailure (Errorf_read_failed errs))"
  using assms by (simp add: OnMsg_def)

lemma loop_good_slot:
  assumes "OnMsg_loop E i results (data, False, errs) = Inr (data', True, errs')"
  shows "\<exists>v. Some v \<in> set results \<and> Status v = StatusOK"
proof -
  from loop_succ [OF assms] obtain r where r: "r \<in> set results" "\<not> status_failed r" by auto
  from loop_returns_no_nil [OF assms] r(1) have "r \<noteq> None" by (cases r) auto
  with r(2) good_slot_ok [of r] obtain v where "r = Some v" "Status v = StatusOK" by auto
  with r(1) show ?thesis by auto
qed

section \<open>The read node\<close>

text \<open>
  C1. When the transport succeeds and every node fails, the operation reports failure, but
  the error does not carry the failure reasons: \<open>errs\<close> starts as ten empty strings, the
  guard \<open>len(errs) < 10\<close> never holds, and the error lists ten empty strings. Shown on one
  node with status \<open>StatusBadNodeIDUnknown\<close>, whose text is absent from the error.
\<close>

theorem OnMsg_all_failed_error_text:
  "OnMsg (mock_node [''ns=2;s=Tag1''] [bad_slot]) ''[\"ns=2;s=Tag1\"]''
     = TellFailure (Errorf_read_failed (replicate 10 []))
   \<and> Status_Error (mock_node [''ns=2;s=Tag1''] [bad_slot]) StatusBadNodeIDUnknown
       \<notin> set (replicate 10 [])"
  by (simp add: OnMsg_def mock_node_def bad_slot_def prefilled_def make_errs_def
      status_failed_def StatusOK_def StatusBadNodeIDUnknown_def)

text \<open>
  C3 (as stated). The claim makes one good node sufficient for the success path. It is not:
  a node with good status whose value the JSON encoder refuses sets \<open>succ\<close>, but
  \<open>json.Marshal\<close> fails and the message goes down the failure path.
\<close>

theorem OnMsg_good_node_marshal_failure:
  "Status (the (good_slot Float64_NaN)) = StatusOK
   \<and> OnMsg (mock_node [''ns=2;s=Tag1''] [good_slot Float64_NaN]) ''[\"ns=2;s=Tag1\"]''
       = TellFailure (Err ''json: unsupported value: NaN'')"
  by (simp add: OnMsg_def mock_node_def good_slot_def prefilled_def make_errs_def
      status_failed_def StatusOK_def decode_slot_def reading_def)

text \<open>
  C3 (amended). After a batched read that succeeds at the transport level:
  the message is forwarded on the success path only if at least one node has status
  \<open>StatusOK\<close>; if every node has a failure status the operation reports failure with the
  aggregated read error; and if at least one node is good, every result slot is present and
  \<open>data\<close> covers the slots, the loop finishes with \<open>succ\<close> set and the message is forwarded on
  the success path exactly when \<open>json.Marshal\<close> accepts the readings, else on the failure
  path with the encoder's error.
\<close>

theorem OnMsg_success_policy:
  assumes get: "SharedNode_Get E = Inr c"
    and um: "json_Unmarshal E msgData = Inr nodeIds"
    and rd: "opcua_Read E c nodeIds = Inr (data, results)"
  shows "(\<forall>ds. OnMsg E msgData = TellSuccess ds \<longrightarrow>
            (\<exists>v. Some v \<in> set results \<and> Status v = StatusOK))
       \<and> ((\<forall>r\<in>set results. status_failed r) \<longrightarrow>
            (\<exists>errs. OnMsg E msgData = TellFailure (Errorf_read_failed errs)))
       \<and> (None \<notin> set results \<and> length results \<le> length data
            \<and> (\<exists>v. Some v \<in> set results \<and> Status v = StatusOK) \<longrightarrow>
            (\<exists>data' errs. OnMsg_loop E 0 results (data, False, make_errs) = Inr (data', True, errs)
               \<and> OnMsg E msgData =
                   (case json_Marshal E data' of
                      Some err \<Rightarrow> TellFailure err
                    | None \<Rightarrow> TellSuccess data')))"
proof (intro conjI allI impI)
  fix ds assume s: "OnMsg E msgData = TellSuccess ds"
  from s OnMsg_after_read [OF get um rd]
  obtain errs where "OnMsg_loop E 0 results (data, False, make_errs) = Inr (ds, True, errs)"
    by (auto split: sum.splits prod.splits if_splits option.splits)
  then show "\<exists>v. Some v \<in> set results \<and> Status v = StatusOK" by (rule loop_good_slot)
next
  assume "\<forall>r\<in>set results. status_failed r"
  from loop_all_failed [OF this make_errs_full, of E 0 data False]
  have "OnMsg E msgData = TellFailure (Errorf_read_failed make_errs)"
    by (simp add: OnMsg_after_read [OF get um rd])
  then show "\<exists>errs. OnMsg E msgData = TellFailure (Errorf_read_failed errs)" by blast
next
  assume a: "None \<notin> set results \<and> length results \<le> length data
            \<and> (\<exists>v. Some v \<in> set results \<and> Status v = StatusOK)"
  then have nn: "None \<notin> set results" and len: "length results \<le> length data" by simp_all
  from a obtain v where v: "Some v \<in> set results" "Status v = StatusOK" by blast
  then have "\<not> status_failed (Some v)" by (simp add: status_failed_def)
  with v(1) have good: "\<exists>r\<in>set results. \<not> status_failed r" by blast
  from loop_ok0 [OF nn len, of E False make_errs] good
  obtain data' errs' where
    run: "OnMsg_loop E 0 results (data, False, make_errs) = Inr (data', True, errs')"
    by auto
  have "OnMsg E msgData =
          (case json_Marshal E data' of Some err \<Rightarrow> TellFailure err | None \<Rightarrow> TellSuccess data')"
    by (simp add: OnMsg_after_read [OF get um rd] run)
  with run show "\<exists>data' errs. OnMsg_loop E 0 results (data, False, make_errs) = Inr (data', True, errs)
               \<and> OnMsg E msgData =
                   (case json_Marshal E data' of
                      Some err \<Rightarrow> TellFailure err
                    | None \<Rightarrow> TellSuccess data')" by blast
qed

theorem OnMsg_success_policy_witness:
  "(\<exists>v. Some v \<in> set [good_slot (Int64 42), bad_slot] \<and> Status v = StatusOK)
   \<and> (\<exists>data' errs.
         OnMsg_loop (mock_node [''ns=2;s=Tag1'', ''ns=2;s=Tag2''] [good_slot (Int64 42), bad_slot]) 0
            [good_slot (Int64 42), bad_slot]
            (map prefilled [''ns=2;s=Tag1'', ''ns=2;s=Tag2''], False, make_errs)
           = Inr (data', True, errs)
       \<and> OnMsg (mock_node [''ns=2;s=Tag1'', ''ns=2;s=Tag2''] [good_slot (Int64 42), bad_slot]) []
           = (case json_Marshal
                     (mock_node [''ns=2;s=Tag1'', ''ns=2;s=Tag2''] [good_slot (Int64 42), bad_slot])
                     data' of
                Some err \<Rightarrow> TellFailure err
              | None \<Rightarrow> TellSuccess data'))"
proof -
  let ?ids = "[''ns=2;s=Tag1'', ''ns=2;s=Tag2'']"
  let ?slots = "[good_slot (Int64 42), bad_slot]"
  let ?E = "mock_node ?ids ?slots"
  have get: "SharedNode_Get ?E = Inr 1"
    and um: "json_Unmarshal ?E [] = Inr ?ids"
    and rd: "opcua_Read ?E 1 ?ids = Inr (map prefilled ?ids, ?slots)"
    by (simp_all add: mock_node_def)
  have good: "\<exists>v. Some v \<in> set ?slots \<and> Status v = StatusOK"
    by (auto simp: good_slot_def)
  have pre: "None \<notin> set ?slots \<and> length ?slots \<le> length (map prefilled ?ids)
             \<and> (\<exists>v. Some v \<in> set ?slots \<and> Status v = StatusOK)"
    using good by (simp add: good_slot_def bad_slot_def)
  from OnMsg_success_policy [OF get um rd] pre good show ?thesis by blast
qed

text \<open>
  The positions the loop leaves behind, with the stored reading written out field by field.
\<close>

lemma loop_positions:
  assumes nn: "None \<notin> set results" and len: "length results \<le> length data"
  shows "\<exists>data' succ errs.
     OnMsg_loop E 0 results (data, False, make_errs) = Inr (data', succ, errs)
     \<and> succ = (\<exists>r\<in>set results. \<not> status_failed r)
     \<and> length data' = length data
     \<and> (\<forall>i<length results. \<exists>r. results ! i = Some r \<and>
           data' ! i =
             (if Status r \<noteq> StatusOK then data ! i
              else ParseValue E
                     \<lparr> DisplayName = DisplayName (data ! i),
                       NodeId = NodeId (data ! i),
                       RecordTime = ServerTimestamp r,
                       SourceTime = SourceTimestamp r,
                       DValue = Value r,
                       Quality = Status r,
                       Timestamp = time_Now E i \<rparr>))"
proof -
  from loop_ok0 [OF nn len, of E False make_errs]
  obtain data' errs' where
    run: "OnMsg_loop E 0 results (data, False, make_errs)
            = Inr (data', False \<or> (\<exists>r\<in>set results. \<not> status_failed r), errs')"
    and l: "length data' = length data"
    and pos: "\<forall>k<length results. data' ! k =
           (if status_failed (results ! k) then data ! k
            else reading E k (data ! k) (the (results ! k)))"
    by blast
  have "\<forall>i<length results. \<exists>r. results ! i = Some r \<and>
           data' ! i =
             (if Status r \<noteq> StatusOK then data ! i
              else ParseValue E
                     \<lparr> DisplayName = DisplayName (data ! i),
                       NodeId = NodeId (data ! i),
                       RecordTime = ServerTimestamp r,
                       SourceTime = SourceTimestamp r,
                       DValue = Value r,
                       Quality = Status r,
                       Timestamp = time_Now E i \<rparr>)"
  proof (intro allI impI)
    fix i assume i: "i < length results"
    then have "results ! i \<in> set results" by (rule nth_mem)
    with nn obtain r where r: "results ! i = Some r" by (cases "results ! i") auto
    from pos i r have "data' ! i =
             (if Status r \<noteq> StatusOK then data ! i
              else ParseValue E
                     \<lparr> DisplayName = DisplayName (data ! i),
                       NodeId = NodeId (data ! i),
                       RecordTime = ServerTimestamp r,
                       SourceTime = SourceTimestamp r,
                       DValue = Value r,
                       Quality = Status r,
                       Timestamp = time_Now E i \<rparr>)"
      by (simp add: status_failed_def reading_def)
    with r show "\<exists>r. results ! i = Some r \<and>
           data' ! i =
             (if Status r \<noteq> StatusOK then data ! i
              else ParseValue E
                     \<lparr> DisplayName = DisplayName (data ! i),
                       NodeId = NodeId (data ! i),
                       RecordTime = ServerTimestamp r,
                       SourceTime = SourceTimestamp r,
                       DValue = Value r,
                       Quality = Status r,
                       Timestamp = time_Now E i \<rparr>)" by blast
  qed
  with run l show ?thesis by simp
qed

lemma two_entries:
  "length xs = 2 \<Longrightarrow> xs ! 0 = a \<Longrightarrow> xs ! 1 = b \<Longrightarrow> xs = [a, b]"
  by (cases xs; cases "tl xs") auto




text \<open>
  C10. A nil result slot does not satisfy the failure guard, so it reaches the branch that
  reads the fields of the slot, which is a nil pointer dereference. Hence the loop finishes
  only if no slot is nil; with a nil slot present (and \<open>data\<close> covering the slots) it panics
  with a nil pointer dereference; with every slot present it finishes.
\<close>

theorem OnMsg_loop_nil_result:
  "\<not> status_failed None
   \<and> (\<forall>i < length data. decode_slot E i data None = Inl NilPointerDereference)
   \<and> (\<forall>st. OnMsg_loop E i results (data, succ, errs) = Inr st \<longrightarrow> None \<notin> set results)
   \<and> (None \<in> set results \<and> i + length results \<le> length data \<longrightarrow>
        OnMsg_loop E i results (data, succ, errs) = Inl NilPointerDereference)
   \<and> (None \<notin> set results \<and> i + length results \<le> length data \<longrightarrow>
        (\<exists>st. OnMsg_loop E i results (data, succ, errs) = Inr st))"
proof (intro conjI allI impI)
  show "\<not> status_failed None" by (simp add: status_failed_def)
next
  fix j assume "j < length data"
  then show "decode_slot E j data None = Inl NilPointerDereference"
    by (simp add: decode_slot_def)
next
  fix st assume "OnMsg_loop E i results (data, succ, errs) = Inr st"
  then show "None \<notin> set results" by (rule loop_returns_no_nil)
next
  assume "None \<in> set results \<and> i + length results \<le> length data"
  then show "OnMsg_loop E i results (data, succ, errs) = Inl NilPointerDereference"
    by (simp add: loop_nil_panics)
next
  assume a: "None \<notin> set results \<and> i + length results \<le> length data"
  from a have nn: "None \<notin> set results" and len: "i + length results \<le> length data" by simp_all
  from loop_ok [OF nn len, of E succ errs]
  show "\<exists>st. OnMsg_loop E i results (data, succ, errs) = Inr st" by blast
qed

theorem OnMsg_loop_nil_result_witness:
  "OnMsg_loop (mock_node [''a'', ''b''] [good_slot (Int64 1), None]) 0 [good_slot (Int64 1), None]
      (map prefilled [''a'', ''b''], False, make_errs) = Inl NilPointerDereference
   \<and> (\<exists>st. OnMsg_loop (mock_node [''a'', ''b''] [good_slot (Int64 1), bad_slot]) 0
              [good_slot (Int64 1), bad_slot]
              (map prefilled [''a'', ''b''], False, make_errs) = Inr st)"
proof
  let ?E = "mock_node [''a'', ''b''] [good_slot (Int64 1), None]"
  let ?E' = "mock_node [''a'', ''b''] [good_slot (Int64 1), bad_slot]"
  have p: "None \<in> set [good_slot (Int64 1), None]
            \<and> 0 + length [good_slot (Int64 1), None] \<le> length (map prefilled [''a'', ''b''])"
    by simp
  from OnMsg_loop_nil_result
    [of "map prefilled [''a'', ''b'']" ?E 0 "[good_slot (Int64 1), None]" False make_errs] p
  show "OnMsg_loop ?E 0 [good_slot (Int64 1), None]
      (map prefilled [''a'', ''b''], False, make_errs) = Inl NilPointerDereference"
    by blast
  have q: "None \<notin> set [good_slot (Int64 1), bad_slot]
            \<and> 0 + length [good_slot (Int64 1), bad_slot] \<le> length (map prefilled [''a'', ''b''])"
    by (simp add: good_slot_def bad_slot_def)
  from OnMsg_loop_nil_result
    [of "map prefilled [''a'', ''b'']" ?E' 0 "[good_slot (Int64 1), bad_slot]" False make_errs] q
  show "\<exists>st. OnMsg_loop ?E' 0 [good_slot (Int64 1), bad_slot]
      (map prefilled [''a'', ''b''], False, make_errs) = Inr st"
    by blast
qed

text \<open>
  C2 (as stated). The claim has the output of a partial success hold entries for the good
  nodes only, one entry in the two-identifier scenario. The code forwards the whole
  \<open>data\<close> slice: for \<open>Tag1\<close> good with value 42 and \<open>Tag2\<close> with a bad status the message
  carries two entries, the reading of \<open>Tag1\<close> with value 42 and the entry of \<open>Tag2\<close> as the
  batched read left it.
\<close>

theorem OnMsg_partial_success_two_entries:
  "OnMsg (mock_node [''ns=2;s=Tag1'', ''ns=2;s=Tag2''] [good_slot (Int64 42), bad_slot])
      ''[\"ns=2;s=Tag1\",\"ns=2;s=Tag2\"]''
     = TellSuccess
         [\<lparr> DisplayName = ''ns=2;s=Tag1'', NodeId = ''ns=2;s=Tag1'', RecordTime = 6,
             SourceTime = 5, DValue = Int64 42, Quality = 0, Timestamp = 100 \<rparr>,
          \<lparr> DisplayName = ''ns=2;s=Tag2'', NodeId = ''ns=2;s=Tag2'', RecordTime = 0,
             SourceTime = 0, DValue = Null, Quality = 0, Timestamp = 0 \<rparr>]
   \<and> OnMsg (mock_node [''ns=2;s=Tag1'', ''ns=2;s=Tag2''] [good_slot (Int64 42), bad_slot])
      ''[\"ns=2;s=Tag1\",\"ns=2;s=Tag2\"]''
     \<noteq> TellSuccess
         [\<lparr> DisplayName = ''ns=2;s=Tag1'', NodeId = ''ns=2;s=Tag1'', RecordTime = 6,
             SourceTime = 5, DValue = Int64 42, Quality = 0, Timestamp = 100 \<rparr>]"
  by (simp add: OnMsg_def mock_node_def good_slot_def bad_slot_def prefilled_def make_errs_def
      status_failed_def StatusOK_def StatusBadNodeIDUnknown_def decode_slot_def reading_def)

text \<open>
  C2 (amended). After a batched read over \<open>K\<close> identifiers that succeeds at the transport
  level with \<open>K\<close> entries and \<open>K\<close> present result slots, at least one of them good, the
  sequence handed to the JSON encoder has exactly \<open>K\<close> entries: at a position whose status
  is good the reading decoded from that slot (its value, status and timestamps, with the
  identifier and display name of the entry), at a position whose status is a failure the
  entry the batched read returned for it, unchanged. When the encoder accepts the sequence
  the message forwarded on the success path carries exactly this sequence; when it does
  not, the operation reports the encoder's error.
\<close>

theorem OnMsg_partial_success_delivery:
  assumes get: "SharedNode_Get E = Inr c"
    and um: "json_Unmarshal E msgData = Inr nodeIds"
    and rd: "opcua_Read E c nodeIds = Inr (data, results)"
    and ld: "length data = length nodeIds"
    and lr: "length results = length nodeIds"
    and nn: "None \<notin> set results"
    and good: "\<exists>r. Some r \<in> set results \<and> Status r = StatusOK"
  shows "\<exists>data'.
           length data' = length nodeIds
         \<and> (\<forall>i<length nodeIds. \<exists>r. results ! i = Some r \<and>
           data' ! i =
             (if Status r \<noteq> StatusOK then data ! i
              else ParseValue E
                     \<lparr> DisplayName = DisplayName (data ! i),
                       NodeId = NodeId (data ! i),
                       RecordTime = ServerTimestamp r,
                       SourceTime = SourceTimestamp r,
                       DValue = Value r,
                       Quality = Status r,
                       Timestamp = time_Now E i \<rparr>))
         \<and> OnMsg E msgData =
             (case json_Marshal E data' of
                Some err \<Rightarrow> TellFailure err
              | None \<Rightarrow> TellSuccess data')"
proof -
  from ld lr have len: "length results \<le> length data" by simp
  from loop_positions [OF nn len, of E]
  obtain data' succ errs where
    run: "OnMsg_loop E 0 results (data, False, make_errs) = Inr (data', succ, errs)"
    and sc: "succ = (\<exists>r\<in>set results. \<not> status_failed r)"
    and l: "length data' = length data"
    and pos: "\<forall>i<length results. \<exists>r. results ! i = Some r \<and>
           data' ! i =
             (if Status r \<noteq> StatusOK then data ! i
              else ParseValue E
                     \<lparr> DisplayName = DisplayName (data ! i),
                       NodeId = NodeId (data ! i),
                       RecordTime = ServerTimestamp r,
                       SourceTime = SourceTimestamp r,
                       DValue = Value r,
                       Quality = Status r,
                       Timestamp = time_Now E i \<rparr>)"
    by blast
  from good obtain r where "Some r \<in> set results" "\<not> status_failed (Some r)"
    by (auto simp: status_failed_def)
  with sc have succ by blast
  then have out: "OnMsg E msgData =
             (case json_Marshal E data' of
                Some err \<Rightarrow> TellFailure err
              | None \<Rightarrow> TellSuccess data')"
    by (simp add: OnMsg_after_read [OF get um rd] run)
  from pos lr have pos': "(\<forall>i<length nodeIds. \<exists>r. results ! i = Some r \<and>
           data' ! i =
             (if Status r \<noteq> StatusOK then data ! i
              else ParseValue E
                     \<lparr> DisplayName = DisplayName (data ! i),
                       NodeId = NodeId (data ! i),
                       RecordTime = ServerTimestamp r,
                       SourceTime = SourceTimestamp r,
                       DValue = Value r,
                       Quality = Status r,
                       Timestamp = time_Now E i \<rparr>))" by (simp only:)
  from l ld have l': "length data' = length nodeIds" by simp
  from l' pos' out show ?thesis by blast
qed

theorem OnMsg_partial_success_delivery_witness:
  "\<exists>data'.
     length data' = 2
   \<and> NodeId (data' ! 0) = ''ns=2;s=Tag1''
   \<and> DValue (data' ! 0) = Int64 42
   \<and> data' ! 1 = prefilled ''ns=2;s=Tag2''
   \<and> OnMsg (mock_node [''ns=2;s=Tag1'', ''ns=2;s=Tag2''] [good_slot (Int64 42), bad_slot])
         ''[\"ns=2;s=Tag1\",\"ns=2;s=Tag2\"]''
       = TellSuccess data'"
proof -
  let ?ids = "[''ns=2;s=Tag1'', ''ns=2;s=Tag2'']"
  let ?slots = "[good_slot (Int64 42), bad_slot]"
  let ?E = "mock_node ?ids ?slots"
  let ?msg = "''[\"ns=2;s=Tag1\",\"ns=2;s=Tag2\"]''"
  let ?data = "map prefilled ?ids"
  have get: "SharedNode_Get ?E = Inr 1"
    and um: "json_Unmarshal ?E ?msg = Inr ?ids"
    and rd: "opcua_Read ?E 1 ?ids = Inr (?data, ?slots)"
    by (simp_all add: mock_node_def)
  have ids: "map NodeId ?data = ?ids" by (simp add: prefilled_def)
  have ld: "length ?data = length ?ids" and lr: "length ?slots = length ?ids" by simp_all
  have nn: "None \<notin> set ?slots" by (simp add: good_slot_def bad_slot_def)
  have good: "\<exists>r. Some r \<in> set ?slots \<and> Status r = StatusOK"
    by (auto simp: good_slot_def)
  from OnMsg_partial_success_delivery [OF get um rd ld lr nn good]
  obtain data' where
    l: "length data' = length ?ids"
    and pos0: "\<forall>i<length ?ids. \<exists>r. ?slots ! i = Some r \<and>
           data' ! i =
             (if Status r \<noteq> StatusOK then ?data ! i
              else ParseValue ?E
                     \<lparr> DisplayName = DisplayName (?data ! i),
                       NodeId = NodeId (?data ! i),
                       RecordTime = ServerTimestamp r,
                       SourceTime = SourceTimestamp r,
                       DValue = Value r,
                       Quality = Status r,
                       Timestamp = time_Now ?E i \<rparr>)"
    and out: "OnMsg ?E ?msg =
             (case json_Marshal ?E data' of
                Some err \<Rightarrow> TellFailure err
              | None \<Rightarrow> TellSuccess data')"
    by blast
  have i0: "(0::nat) < length ?ids" and i1: "(1::nat) < length ?ids" by simp_all
  from pos0 i0 obtain r0 where s0: "?slots ! 0 = Some r0"
    and d0: "data' ! 0 =
             (if Status r0 \<noteq> StatusOK then ?data ! 0
              else ParseValue ?E
                     \<lparr> DisplayName = DisplayName (?data ! 0),
                       NodeId = NodeId (?data ! 0),
                       RecordTime = ServerTimestamp r0,
                       SourceTime = SourceTimestamp r0,
                       DValue = Value r0,
                       Quality = Status r0,
                       Timestamp = time_Now ?E 0 \<rparr>)"
    by blast
  from s0 have v0: "r0 = \<lparr> Value = Int64 42, Status = StatusOK, SourceTimestamp = 5,
                           ServerTimestamp = 6 \<rparr>"
    by (simp add: good_slot_def)
  have p0: "data' ! 0 = \<lparr> DisplayName = ''ns=2;s=Tag1'', NodeId = ''ns=2;s=Tag1'', RecordTime = 6,
             SourceTime = 5, DValue = Int64 42, Quality = 0, Timestamp = 100 \<rparr>"
    unfolding d0 v0 by (simp add: mock_node_def prefilled_def StatusOK_def)
  from pos0 i1 obtain r1 where s1: "?slots ! 1 = Some r1"
    and d1: "data' ! 1 =
             (if Status r1 \<noteq> StatusOK then ?data ! 1
              else ParseValue ?E
                     \<lparr> DisplayName = DisplayName (?data ! 1),
                       NodeId = NodeId (?data ! 1),
                       RecordTime = ServerTimestamp r1,
                       SourceTime = SourceTimestamp r1,
                       DValue = Value r1,
                       Quality = Status r1,
                       Timestamp = time_Now ?E 1 \<rparr>)"
    by blast
  from s1 have v1: "r1 = \<lparr> Value = Null, Status = StatusBadNodeIDUnknown,
                           SourceTimestamp = 0, ServerTimestamp = 0 \<rparr>"
    by (simp add: bad_slot_def)
  have p1: "data' ! 1 = \<lparr> DisplayName = ''ns=2;s=Tag2'', NodeId = ''ns=2;s=Tag2'', RecordTime = 0,
             SourceTime = 0, DValue = Null, Quality = 0, Timestamp = 0 \<rparr>"
    unfolding d1 v1 by (simp add: prefilled_def StatusOK_def StatusBadNodeIDUnknown_def)
  from l have "length data' = 2" by simp
  from two_entries [OF this p0 p1]
  have eq: "data' = [\<lparr> DisplayName = ''ns=2;s=Tag1'', NodeId = ''ns=2;s=Tag1'', RecordTime = 6,
             SourceTime = 5, DValue = Int64 42, Quality = 0, Timestamp = 100 \<rparr>,
          \<lparr> DisplayName = ''ns=2;s=Tag2'', NodeId = ''ns=2;s=Tag2'', RecordTime = 0,
             SourceTime = 0, DValue = Null, Quality = 0, Timestamp = 0 \<rparr>]" .
  from out eq have "OnMsg ?E ?msg = TellSuccess data'"
    by (simp add: mock_node_def)
  with eq show ?thesis
    by (intro exI [of _ data']) (simp add: prefilled_def)
qed


text \<open>
  C5. When the batched read returns an error, the operation aborts with exactly that
  error: the read node tells failure with it, and the endpoint's \<open>readNodes\<close> returns it and
  hands nothing to the route.
\<close>

theorem transport_error_aborts:
  "(SharedNode_Get E = Inr c \<and> json_Unmarshal E msgData = Inr nodeIds
      \<and> opcua_Read E c nodeIds = Inl err
     \<longrightarrow> OnMsg E msgData = TellFailure err)
   \<and> (SharedNode_GetSafely (initClient P) (shared x) = (Inr cl, sn)
      \<and> ep_Read P cl (NodeIds x) = Inl err'
     \<longrightarrow> fst (readNodes P router x) = Returned (Some err')
       \<and> processed (snd (readNodes P router x)) = processed x)"
  by (simp add: OnMsg_def readNodes_def readNodes_body_def IncrementActiveOperations_def
        DecrementActiveOperations_def logged_def Let_def)

theorem transport_error_aborts_witness:
  "OnMsg (mock_node_down [''ns=2;s=Tag1'', ''ns=2;s=Tag2'']) [] = TellFailure (Err ''EOF'')
   \<and> fst (readNodes (mock_endpoint (Inl (Err ''EOF''))) (RouterWithId ''r1'') New)
       = Returned (Some (Err ''EOF''))
   \<and> processed (snd (readNodes (mock_endpoint (Inl (Err ''EOF''))) (RouterWithId ''r1'') New)) = []"
proof -
  let ?ids = "[''ns=2;s=Tag1'', ''ns=2;s=Tag2'']"
  have a: "SharedNode_Get (mock_node_down ?ids) = Inr 1
      \<and> json_Unmarshal (mock_node_down ?ids) [] = Inr ?ids
      \<and> opcua_Read (mock_node_down ?ids) 1 ?ids = Inl (Err ''EOF'')"
    by (simp add: mock_node_down_def mock_node_def)
  let ?P = "mock_endpoint (Inl (Err ''EOF''))"
  have b: "SharedNode_GetSafely (initClient ?P) (shared New)
             = (Inr 1, \<lparr> isInit = False, client = Some 1 \<rparr>)
      \<and> ep_Read ?P 1 (NodeIds New) = Inl (Err ''EOF'')"
    by (simp add: mock_endpoint_def New_def SharedNode_GetSafely_def)
  have c: "processed New = []" by (simp add: New_def)
  from transport_error_aborts
    [of "mock_node_down ?ids" 1 "[]" ?ids "Err ''EOF''" ?P New 1
        "\<lparr> isInit = False, client = Some 1 \<rparr>" "Err ''EOF''" "RouterWithId ''r1''"] a b c
  show ?thesis by simp
qed

section \<open>The endpoint\<close>

text \<open>
  \<open>readNodes\<close> path by path: what it returns, what it leaves in the log of calls and in the
  counter when the shared client cannot be acquired, when the batched read fails, and when
  the exchange reaches the downstream processing.
\<close>

lemma logged_fields [simp]:
  "shared (logged c x) = shared x" "NodeIds (logged c x) = NodeIds x"
  "processed (logged c x) = processed x" "activeOperations (logged c x) = activeOperations x"
  "calls (logged c x) = calls x @ [(c, activeOperations x)]"
  by (simp_all add: logged_def)

lemma readNodes_unfold:
  "readNodes P router x =
     (fst (readNodes_body P router (IncrementActiveOperations x)),
      DecrementActiveOperations (snd (readNodes_body P router (IncrementActiveOperations x))))"
  by (simp add: readNodes_def split: prod.splits)

lemma Increment_fields [simp]:
  "shared (IncrementActiveOperations x) = shared x"
  "NodeIds (IncrementActiveOperations x) = NodeIds x"
  "processed (IncrementActiveOperations x) = processed x"
  "activeOperations (IncrementActiveOperations x) = activeOperations x + 1"
  "calls (IncrementActiveOperations x)
     = calls x @ [(Call_IncrementActiveOperations, activeOperations x + 1)]"
  by (simp_all add: IncrementActiveOperations_def)

lemma Decrement_fields [simp]:
  "processed (DecrementActiveOperations x) = processed x"
  "activeOperations (DecrementActiveOperations x) = activeOperations x - 1"
  "calls (DecrementActiveOperations x)
     = calls x @ [(Call_DecrementActiveOperations, activeOperations x - 1)]"
  by (simp_all add: DecrementActiveOperations_def)

lemma body_get_fails:
  assumes "SharedNode_GetSafely (initClient P) (shared x) = (Inl err, sn)"
  shows "fst (readNodes_body P router x) = Returned (Some err)"
    and "activeOperations (snd (readNodes_body P router x)) = activeOperations x"
    and "calls (snd (readNodes_body P router x)) = calls x @ [(Call_GetSafely, activeOperations x)]"
    and "processed (snd (readNodes_body P router x)) = processed x"
  using assms by (simp_all add: readNodes_body_def Let_def)

lemma body_read_fails:
  assumes "SharedNode_GetSafely (initClient P) (shared x) = (Inr cl, sn)"
    and "ep_Read P cl (NodeIds x) = Inl err"
  shows "fst (readNodes_body P router x) = Returned (Some err)"
    and "activeOperations (snd (readNodes_body P router x)) = activeOperations x"
    and "calls (snd (readNodes_body P router x))
           = calls x @ [(Call_GetSafely, activeOperations x), (Call_Read, activeOperations x)]"
    and "processed (snd (readNodes_body P router x)) = processed x"
  using assms by (simp_all add: readNodes_body_def Let_def)

lemma body_processed:
  assumes "SharedNode_GetSafely (initClient P) (shared x) = (Inr cl, sn)"
    and "ep_Read P cl (NodeIds x) = Inr (data, resp)"
  shows "fst (readNodes_body P router x)
           = (if DoProcess_panics P router \<lparr> In_data = data, Out_data = data \<rparr>
              then Panicked else Returned None)"
    and "activeOperations (snd (readNodes_body P router x)) = activeOperations x"
    and "calls (snd (readNodes_body P router x))
           = calls x @ [(Call_GetSafely, activeOperations x), (Call_Read, activeOperations x),
                        (Call_DoProcess, activeOperations x)]"
  using assms by (simp_all add: readNodes_body_def Let_def)

lemma readNodes_calls:
  "\<exists>inner. set inner \<subseteq> {Call_GetSafely, Call_Read, Call_DoProcess}
     \<and> calls (snd (readNodes_body P router x))
           = calls x @ map (\<lambda>c. (c, activeOperations x)) inner
     \<and> activeOperations (snd (readNodes_body P router x)) = activeOperations x"
proof (cases "SharedNode_GetSafely (initClient P) (shared x)")
  case (Pair res sn)
  show ?thesis
  proof (cases res)
    case (Inl err)
    with Pair have g: "SharedNode_GetSafely (initClient P) (shared x) = (Inl err, sn)" by simp
    have "set [Call_GetSafely] \<subseteq> {Call_GetSafely, Call_Read, Call_DoProcess}
        \<and> calls (snd (readNodes_body P router x))
             = calls x @ map (\<lambda>c. (c, activeOperations x)) [Call_GetSafely]
        \<and> activeOperations (snd (readNodes_body P router x)) = activeOperations x"
      by (simp add: body_get_fails [OF g])
    then show ?thesis by blast
  next
    case (Inr cl)
    with Pair have g: "SharedNode_GetSafely (initClient P) (shared x) = (Inr cl, sn)" by simp
    show ?thesis
    proof (cases "ep_Read P cl (NodeIds x)")
      case (Inl err)
      have "set [Call_GetSafely, Call_Read] \<subseteq> {Call_GetSafely, Call_Read, Call_DoProcess}
        \<and> calls (snd (readNodes_body P router x))
             = calls x @ map (\<lambda>c. (c, activeOperations x)) [Call_GetSafely, Call_Read]
        \<and> activeOperations (snd (readNodes_body P router x)) = activeOperations x"
        by (simp add: body_read_fails [OF g Inl])
      then show ?thesis by blast
    next
      case (Inr dr)
      obtain data resp where "dr = (data, resp)" by (cases dr)
      with Inr have r: "ep_Read P cl (NodeIds x) = Inr (data, resp)" by simp
      have "set [Call_GetSafely, Call_Read, Call_DoProcess]
              \<subseteq> {Call_GetSafely, Call_Read, Call_DoProcess}
        \<and> calls (snd (readNodes_body P router x))
             = calls x @ map (\<lambda>c. (c, activeOperations x))
                           [Call_GetSafely, Call_Read, Call_DoProcess]
        \<and> activeOperations (snd (readNodes_body P router x)) = activeOperations x"
        by (simp add: body_processed [OF g r])
      then show ?thesis by blast
    qed
  qed
qed

text \<open>
  C8. Every execution of \<open>readNodes\<close> increments the active-operation counter before any
  other call and decrements it after the last one: the calls it adds to the log are the
  increment, then calls made with the counter one above its prior value, then the
  decrement, which brings the counter back to its prior value. This holds on each way out:
  the shared client cannot be acquired (the error is returned), the batched read fails (the
  error is returned), the exchange is processed, and the processing panics. If the counter
  and every logged value were not negative before, no logged value is negative afterwards.
\<close>

theorem readNodes_counter_paired:
  "(\<exists>inner. set inner \<subseteq> {Call_GetSafely, Call_Read, Call_DoProcess}
      \<and> calls (snd (readNodes P router x))
          = calls x @ [(Call_IncrementActiveOperations, activeOperations x + 1)]
              @ map (\<lambda>c. (c, activeOperations x + 1)) inner
              @ [(Call_DecrementActiveOperations, activeOperations x)])
   \<and> activeOperations (snd (readNodes P router x)) = activeOperations x
   \<and> (\<forall>err sn. SharedNode_GetSafely (initClient P) (shared x) = (Inl err, sn) \<longrightarrow>
         fst (readNodes P router x) = Returned (Some err)
         \<and> calls (snd (readNodes P router x))
             = calls x @ [(Call_IncrementActiveOperations, activeOperations x + 1),
                          (Call_GetSafely, activeOperations x + 1),
                          (Call_DecrementActiveOperations, activeOperations x)])
   \<and> (\<forall>cl sn err. SharedNode_GetSafely (initClient P) (shared x) = (Inr cl, sn)
           \<and> ep_Read P cl (NodeIds x) = Inl err \<longrightarrow>
         fst (readNodes P router x) = Returned (Some err)
         \<and> calls (snd (readNodes P router x))
             = calls x @ [(Call_IncrementActiveOperations, activeOperations x + 1),
                          (Call_GetSafely, activeOperations x + 1),
                          (Call_Read, activeOperations x + 1),
                          (Call_DecrementActiveOperations, activeOperations x)])
   \<and> (\<forall>cl sn data resp. SharedNode_GetSafely (initClient P) (shared x) = (Inr cl, sn)
           \<and> ep_Read P cl (NodeIds x) = Inr (data, resp) \<longrightarrow>
         fst (readNodes P router x)
           = (if DoProcess_panics P router \<lparr> In_data = data, Out_data = data \<rparr>
              then Panicked else Returned None)
         \<and> calls (snd (readNodes P router x))
             = calls x @ [(Call_IncrementActiveOperations, activeOperations x + 1),
                          (Call_GetSafely, activeOperations x + 1),
                          (Call_Read, activeOperations x + 1),
                          (Call_DoProcess, activeOperations x + 1),
                          (Call_DecrementActiveOperations, activeOperations x)])
   \<and> (0 \<le> activeOperations x \<and> (\<forall>e \<in> set (calls x). 0 \<le> snd e) \<longrightarrow>
         (\<forall>e \<in> set (calls (snd (readNodes P router x))). 0 \<le> snd e))"
proof (intro conjI allI impI)
  let ?x1 = "IncrementActiveOperations x"
  from readNodes_calls [of P router ?x1]
  obtain inner where inner: "set inner \<subseteq> {Call_GetSafely, Call_Read, Call_DoProcess}"
    and cs: "calls (snd (readNodes_body P router ?x1))
           = calls ?x1 @ map (\<lambda>c. (c, activeOperations ?x1)) inner"
    and ao: "activeOperations (snd (readNodes_body P router ?x1)) = activeOperations ?x1"
    by blast
  have full: "calls (snd (readNodes P router x))
          = calls x @ [(Call_IncrementActiveOperations, activeOperations x + 1)]
              @ map (\<lambda>c. (c, activeOperations x + 1)) inner
              @ [(Call_DecrementActiveOperations, activeOperations x)]"
    by (simp add: readNodes_unfold cs ao)
  with inner show "\<exists>inner. set inner \<subseteq> {Call_GetSafely, Call_Read, Call_DoProcess}
      \<and> calls (snd (readNodes P router x))
          = calls x @ [(Call_IncrementActiveOperations, activeOperations x + 1)]
              @ map (\<lambda>c. (c, activeOperations x + 1)) inner
              @ [(Call_DecrementActiveOperations, activeOperations x)]" by blast
  show "activeOperations (snd (readNodes P router x)) = activeOperations x"
    by (simp add: readNodes_unfold ao)
  {
    assume "0 \<le> activeOperations x \<and> (\<forall>e \<in> set (calls x). 0 \<le> snd e)"
    then show "\<forall>e \<in> set (calls (snd (readNodes P router x))). 0 \<le> snd e"
      by (auto simp: full)
  }
next
  fix err sn
  assume g: "SharedNode_GetSafely (initClient P) (shared x) = (Inl err, sn)"
  then have g': "SharedNode_GetSafely (initClient P) (shared (IncrementActiveOperations x))
                   = (Inl err, sn)" by simp
  show "fst (readNodes P router x) = Returned (Some err)"
    by (simp add: readNodes_unfold body_get_fails [OF g'])
  show "calls (snd (readNodes P router x))
             = calls x @ [(Call_IncrementActiveOperations, activeOperations x + 1),
                          (Call_GetSafely, activeOperations x + 1),
                          (Call_DecrementActiveOperations, activeOperations x)]"
    by (simp add: readNodes_unfold body_get_fails [OF g'])
next
  fix cl sn err
  assume a: "SharedNode_GetSafely (initClient P) (shared x) = (Inr cl, sn)
           \<and> ep_Read P cl (NodeIds x) = Inl err"
  then have g': "SharedNode_GetSafely (initClient P) (shared (IncrementActiveOperations x))
                   = (Inr cl, sn)"
    and r': "ep_Read P cl (NodeIds (IncrementActiveOperations x)) = Inl err" by simp_all
  show "fst (readNodes P router x) = Returned (Some err)"
    by (simp add: readNodes_unfold body_read_fails [OF g' r'])
  show "calls (snd (readNodes P router x))
             = calls x @ [(Call_IncrementActiveOperations, activeOperations x + 1),
                          (Call_GetSafely, activeOperations x + 1),
                          (Call_Read, activeOperations x + 1),
                          (Call_DecrementActiveOperations, activeOperations x)]"
    by (simp add: readNodes_unfold body_read_fails [OF g' r'])
next
  fix cl sn data resp
  assume a: "SharedNode_GetSafely (initClient P) (shared x) = (Inr cl, sn)
           \<and> ep_Read P cl (NodeIds x) = Inr (data, resp)"
  then have g': "SharedNode_GetSafely (initClient P) (shared (IncrementActiveOperations x))
                   = (Inr cl, sn)"
    and r': "ep_Read P cl (NodeIds (IncrementActiveOperations x)) = Inr (data, resp)"
    by simp_all
  show "fst (readNodes P router x)
           = (if DoProcess_panics P router \<lparr> In_data = data, Out_data = data \<rparr>
              then Panicked else Returned None)"
    by (simp add: readNodes_unfold body_processed [OF g' r'])
  show "calls (snd (readNodes P router x))
             = calls x @ [(Call_IncrementActiveOperations, activeOperations x + 1),
                          (Call_GetSafely, activeOperations x + 1),
                          (Call_Read, activeOperations x + 1),
                          (Call_DoProcess, activeOperations x + 1),
                          (Call_DecrementActiveOperations, activeOperations x)]"
    by (simp add: readNodes_unfold body_processed [OF g' r'])
qed

theorem readNodes_counter_paired_witness:
  "fst (readNodes (mock_endpoint (Inl (Err ''EOF''))) (RouterWithId ''r1'') New)
     = Returned (Some (Err ''EOF''))
   \<and> calls (snd (readNodes (mock_endpoint (Inl (Err ''EOF''))) (RouterWithId ''r1'') New))
       = [(Call_IncrementActiveOperations, 1), (Call_GetSafely, 1), (Call_Read, 1),
          (Call_DecrementActiveOperations, 0)]
   \<and> activeOperations
         (snd (readNodes (mock_endpoint (Inl (Err ''EOF''))) (RouterWithId ''r1'') New)) = 0
   \<and> fst (readNodes ((mock_endpoint (Inl (Err ''EOF'')))\<lparr> initClient := Inl (Err ''dial'') \<rparr>)
             (RouterWithId ''r1'') New)
     = Returned (Some (Err ''dial''))
   \<and> calls (snd (readNodes ((mock_endpoint (Inl (Err ''EOF'')))\<lparr> initClient := Inl (Err ''dial'') \<rparr>)
                     (RouterWithId ''r1'') New))
       = [(Call_IncrementActiveOperations, 1), (Call_GetSafely, 1),
          (Call_DecrementActiveOperations, 0)]"
proof -
  let ?P = "mock_endpoint (Inl (Err ''EOF''))"
  let ?Q = "?P\<lparr> initClient := Inl (Err ''dial'') \<rparr>"
  let ?r = "RouterWithId ''r1''"
  have z: "activeOperations New = 0" "calls New = []" by (simp_all add: New_def)
  have p: "SharedNode_GetSafely (initClient ?P) (shared New)
             = (Inr 1, \<lparr> isInit = False, client = Some 1 \<rparr>)
           \<and> ep_Read ?P 1 (NodeIds New) = Inl (Err ''EOF'')"
    by (simp add: mock_endpoint_def New_def SharedNode_GetSafely_def)
  have q: "SharedNode_GetSafely (initClient ?Q) (shared New)
             = (Inl (Err ''dial''), \<lparr> isInit = False, client = None \<rparr>)"
    by (simp add: mock_endpoint_def New_def SharedNode_GetSafely_def)
  from readNodes_counter_paired [of ?P ?r New] p z
  have a: "fst (readNodes ?P ?r New) = Returned (Some (Err ''EOF''))"
    and b: "calls (snd (readNodes ?P ?r New))
       = [(Call_IncrementActiveOperations, 1), (Call_GetSafely, 1), (Call_Read, 1),
          (Call_DecrementActiveOperations, 0)]"
    and c: "activeOperations (snd (readNodes ?P ?r New)) = 0"
    by simp_all
  from readNodes_counter_paired [of ?Q ?r New] q z
  have d: "fst (readNodes ?Q ?r New) = Returned (Some (Err ''dial''))"
    and e: "calls (snd (readNodes ?Q ?r New))
       = [(Call_IncrementActiveOperations, 1), (Call_GetSafely, 1),
          (Call_DecrementActiveOperations, 0)]"
    by simp_all
  from a b c d e show ?thesis by blast
qed

text \<open>
  C9. The adapter holds at most one route: \<open>AddRouter\<close> with a nil router returns an error
  and changes nothing; \<open>AddRouter\<close> with a route already attached returns the duplicate
  error and leaves the adapter, and so the attached route, unchanged; with the slot free it
  attaches the route and returns its id; and a tick that fires while no route is attached
  returns normally and changes nothing.
\<close>

theorem at_most_one_route:
  "AddRouter None x = (Inl (Err ''router cannot be nil''), x)
   \<and> (Router x \<noteq> None \<longrightarrow> AddRouter (Some r) x = (Inl (Err ''duplicate router''), x))
   \<and> (Router x = None \<longrightarrow>
        AddRouter (Some r) x = (Inr (GetId r), x\<lparr> Router := Some r \<rparr>))
   \<and> (Router x = None \<longrightarrow> tick P x = (Returned (), x))"
  by (simp add: AddRouter_def tick_def)

theorem at_most_one_route_witness:
  "AddRouter None New = (Inl (Err ''router cannot be nil''), New)
   \<and> AddRouter (Some (RouterWithId ''r2'')) (snd (AddRouter (Some (RouterWithId ''r1'')) New))
       = (Inl (Err ''duplicate router''), snd (AddRouter (Some (RouterWithId ''r1'')) New))
   \<and> Router (snd (AddRouter (Some (RouterWithId ''r1'')) New)) = Some (RouterWithId ''r1'')
   \<and> tick (mock_endpoint (Inl (Err ''EOF''))) New = (Returned (), New)"
proof -
  have n: "Router New = None" by (simp add: New_def)
  let ?x1 = "snd (AddRouter (Some (RouterWithId ''r1'')) New)"
  from at_most_one_route [of New "RouterWithId ''r1''" "mock_endpoint (Inl (Err ''EOF''))"] n
  have a: "AddRouter None New = (Inl (Err ''router cannot be nil''), New)"
    and b: "AddRouter (Some (RouterWithId ''r1'')) New
              = (Inr ''r1'', New\<lparr> Router := Some (RouterWithId ''r1'') \<rparr>)"
    and c: "tick (mock_endpoint (Inl (Err ''EOF''))) New = (Returned (), New)"
    by simp_all
  from b have r1: "Router ?x1 = Some (RouterWithId ''r1'')" by simp
  then have "Router ?x1 \<noteq> None" by simp
  with at_most_one_route [of ?x1 "RouterWithId ''r2''" "mock_endpoint (Inl (Err ''EOF''))"]
  have d: "AddRouter (Some (RouterWithId ''r2'')) ?x1 = (Inl (Err ''duplicate router''), ?x1)"
    by blast
  from a d r1 c show ?thesis by blast
qed

text \<open>
  \<open>Close\<close> step by step: stopping the schedule is idempotent, and \<open>Close\<close> is that step followed
  by the close of the shared connection manager.
\<close>

lemma on_cron_fields [simp]:
  "cronTask (on_cron a f x) = cronTask x" "taskId (on_cron a f x) = taskId x"
  "shared (on_cron a f x) = shared x" "teardowns (on_cron a f x) = teardowns x"
  "length (crons (on_cron a f x)) = length (crons x)"
  by (simp_all add: on_cron_def)

lemma on_cron_idem:
  "(\<And>c. f (f c) = f c) \<Longrightarrow> on_cron a f (on_cron a f x) = on_cron a f x"
  by (cases "a < length (crons x)") (simp_all add: on_cron_def list_update_beyond)

lemma on_cron_commute:
  "(\<And>c. f (g c) = g (f c)) \<Longrightarrow> on_cron a f (on_cron a g x) = on_cron a g (on_cron a f x)"
  by (cases "a < length (crons x)") (simp_all add: on_cron_def list_update_beyond)

lemma cron_Stop_idem: "cron_Stop (cron_Stop c) = cron_Stop c"
  by (simp add: cron_Stop_def)

lemma cron_Remove_idem: "cron_Remove e (cron_Remove e c) = cron_Remove e c"
  by (simp add: cron_Remove_def)

lemma cron_Remove_Stop: "cron_Remove e (cron_Stop c) = cron_Stop (cron_Remove e c)"
  by (simp add: cron_Remove_def cron_Stop_def)

lemma stop_schedule_fields [simp]:
  "cronTask (stop_schedule x) = cronTask x" "taskId (stop_schedule x) = taskId x"
  "shared (stop_schedule x) = shared x" "teardowns (stop_schedule x) = teardowns x"
  by (simp_all add: stop_schedule_def Let_def split: option.splits)

lemma stop_schedule_idem: "stop_schedule (stop_schedule x) = stop_schedule x"
proof (cases "cronTask x")
  case None
  then show ?thesis by (simp add: stop_schedule_def)
next
  case (Some a)
  show ?thesis
  proof (cases "taskId x = 0")
    case True
    with Some show ?thesis
      by (simp add: stop_schedule_def on_cron_idem cron_Stop_idem)
  next
    case False
    let ?R = "cron_Remove (taskId x)"
    have "on_cron a cron_Stop (on_cron a ?R (on_cron a cron_Stop (on_cron a ?R x)))
          = on_cron a cron_Stop (on_cron a cron_Stop (on_cron a ?R (on_cron a ?R x)))"
      by (simp add: on_cron_commute [of ?R cron_Stop] cron_Remove_Stop)
    also have "\<dots> = on_cron a cron_Stop (on_cron a ?R x)"
      by (simp add: on_cron_idem cron_Stop_idem cron_Remove_idem)
    finally show ?thesis using Some False by (simp add: stop_schedule_def)
  qed
qed

lemma Close_via_stop_schedule:
  "Close P x =
     (case SharedNode_Close (close_client P) (shared (stop_schedule x))
             (teardowns (stop_schedule x)) of
        (e, sn, td) \<Rightarrow> (None, (stop_schedule x)\<lparr> shared := sn, teardowns := td \<rparr>))"
  unfolding Close_def stop_schedule_def Let_def by (rule refl)

lemma Close_unfold:
  "Close P x =
     (None,
      (stop_schedule x)
        \<lparr> shared := (shared x)\<lparr> client := None \<rparr>,
          teardowns := (if client (shared x) = None then teardowns x else Suc (teardowns x)) \<rparr>)"
proof (cases "client (shared x)")
  case None
  then have "(shared x)\<lparr> client := None \<rparr> = shared x" by simp
  with None show ?thesis
    by (simp add: Close_via_stop_schedule SharedNode_Close_def)
next
  case (Some c)
  then show ?thesis
    by (simp add: Close_via_stop_schedule SharedNode_Close_def close_client_def)
qed

lemma stop_schedule_update:
  "stop_schedule (x\<lparr> shared := sn, teardowns := td \<rparr>)
     = (stop_schedule x)\<lparr> shared := sn, teardowns := td \<rparr>"
  by (simp add: stop_schedule_def on_cron_def Let_def split: option.splits)

lemma Close_idem: "Close P (snd (Close P x)) = (None, snd (Close P x))"
  by (simp add: Close_unfold stop_schedule_update stop_schedule_idem)

lemma Close_teardowns:
  "teardowns (snd (Close P x)) = teardowns x + (if client (shared x) = None then 0 else 1)"
  by (simp add: Close_unfold)

lemma Close_client: "client (shared (snd (Close P x))) = None"
  by (simp add: Close_unfold)

lemma repeat_Close_errors: "set (fst (repeat_op (Close P) n x)) \<subseteq> {None}"
proof (induction n arbitrary: x)
  case 0
  show ?case by simp
next
  case (Suc n)
  obtain r x' where c: "Close P x = (r, x')" by (cases "Close P x")
  obtain rs x'' where rr: "repeat_op (Close P) n x' = (rs, x'')" by (cases "repeat_op (Close P) n x'")
  from c Close_unfold [of P x] have "r = None" by simp
  moreover from Suc.IH [of x'] rr have "set rs \<subseteq> {None}" by simp
  ultimately show ?case using c rr by simp
qed

lemma repeat_op_idem:
  assumes "\<And>s. snd (f (snd (f s))) = snd (f s)"
  shows "snd (repeat_op f (Suc n) s) = snd (f s)"
proof (induction n arbitrary: s)
  case 0
  show ?case by (simp split: prod.splits)
next
  case (Suc n)
  obtain r s' where c: "f s = (r, s')" by (cases "f s")
  have "snd (repeat_op f (Suc (Suc n)) s) = snd (repeat_op f (Suc n) s')"
    using c by (simp split: prod.splits)
  also have "\<dots> = snd (f s')" by (rule Suc.IH)
  also have "\<dots> = snd (f s)" using assms [of s] c by simp
  finally show ?case .
qed

lemma repeat_Close_state: "snd (repeat_op (Close P) (Suc n) x) = snd (Close P x)"
  by (rule repeat_op_idem) (simp add: Close_idem)

text \<open>
  C6. Calling \<open>Close\<close> any number of times returns no error on any call; a second \<open>Close\<close>
  changes nothing, so the state after \<open>n + 1\<close> calls is the state after one; on an adapter
  that never started a schedule and holds no connection \<open>Close\<close> changes nothing at all; and
  over all the calls the session teardown runs exactly once when a connection was live at
  the first call, and not at all when there was none (or no call was made).
\<close>

theorem Close_idempotent:
  "set (fst (repeat_op (Close P) n x)) \<subseteq> {None}
   \<and> Close P (snd (Close P x)) = (None, snd (Close P x))
   \<and> snd (repeat_op (Close P) (Suc n) x) = snd (Close P x)
   \<and> teardowns (snd (repeat_op (Close P) n x))
       = teardowns x + (if 0 < n \<and> client (shared x) \<noteq> None then 1 else 0)
   \<and> (cronTask x = None \<and> client (shared x) = None \<longrightarrow> Close P x = (None, x))"
proof (intro conjI impI)
  show "set (fst (repeat_op (Close P) n x)) \<subseteq> {None}" by (rule repeat_Close_errors)
  show "Close P (snd (Close P x)) = (None, snd (Close P x))" by (rule Close_idem)
  show "snd (repeat_op (Close P) (Suc n) x) = snd (Close P x)" by (rule repeat_Close_state)
  show "teardowns (snd (repeat_op (Close P) n x))
       = teardowns x + (if 0 < n \<and> client (shared x) \<noteq> None then 1 else 0)"
  proof (cases n)
    case 0
    then show ?thesis by simp
  next
    case (Suc m)
    have "teardowns (snd (repeat_op (Close P) (Suc m) x)) = teardowns (snd (Close P x))"
      by (simp only: repeat_Close_state)
    also have "\<dots> = teardowns x + (if client (shared x) = None then 0 else 1)"
      by (rule Close_teardowns)
    finally show ?thesis using Suc by simp
  qed
next
  assume "cronTask x = None \<and> client (shared x) = None"
  then show "Close P x = (None, x)"
    by (simp add: Close_unfold stop_schedule_def)
qed

theorem Close_idempotent_witness:
  "teardowns (snd (repeat_op (Close (mock_endpoint (Inl (Err ''EOF'')))) 3
       (snd (readNodes (mock_endpoint (Inl (Err ''EOF''))) (RouterWithId ''r1'')
              (snd (Start (mock_endpoint (Inl (Err ''EOF''))) New)))))) = 1
   \<and> Close (mock_endpoint (Inl (Err ''EOF''))) New = (None, New)
   \<and> teardowns (snd (repeat_op (Close (mock_endpoint (Inl (Err ''EOF'')))) 3 New)) = 0"
proof -
  let ?P = "mock_endpoint (Inl (Err ''EOF''))"
  let ?x = "snd (readNodes ?P (RouterWithId ''r1'') (snd (Start ?P New)))"
  have live: "client (shared ?x) = Some 1" and td: "teardowns ?x = 0"
    by (simp_all add: readNodes_def readNodes_body_def Start_def New_def mock_endpoint_def
          SharedNode_GetSafely_def SharedNode_IsInit_def SharedNode_InitWithClose_def
          IncrementActiveOperations_def DecrementActiveOperations_def on_cron_def
          cron_AddFunc_def cron_New_def cron_Start_def logged_def Let_def)
  have fresh: "cronTask New = None \<and> client (shared New) = None" and td0: "teardowns New = 0"
    by (simp_all add: New_def)
  from Close_idempotent [of ?P 3 ?x] live td
  have a: "teardowns (snd (repeat_op (Close ?P) 3 ?x)) = 1" by simp
  from Close_idempotent [of ?P 3 New] fresh td0
  have b: "Close ?P New = (None, New)"
    and c: "teardowns (snd (repeat_op (Close ?P) 3 New)) = 0" by simp_all
  from a b c show ?thesis by blast
qed

text \<open>
  \<open>Start\<close> step by step: the scheduler it was pointing to is stopped, a new one is appended to
  the store and started, and the pointer moves to it. Every scheduler but the new one is
  stopped afterwards, so well-formedness is kept and only the new scheduler's entries fire.
\<close>

lemma Start_crons:
  "crons (snd (Start P x)) =
     (case cronTask x of
        Some a \<Rightarrow> (crons x)[a := cron_Stop (crons x ! a)]
      | None \<Rightarrow> crons x)
     @ [cron_Start (snd (cron_AddFunc (cron_Parse P) (Interval x) cron_New))]"
  by (simp add: Start_def Let_def on_cron_def split: option.splits prod.splits)

lemma Start_cronTask: "cronTask (snd (Start P x)) = Some (length (crons x))"
  by (simp add: Start_def Let_def on_cron_def split: option.splits prod.splits)

lemma Start_Interval: "Interval (snd (Start P x)) = Interval x"
  by (simp add: Start_def Let_def on_cron_def split: option.splits prod.splits)

lemma Start_error: "fst (Start P x) = cron_Parse P (Interval x)"
  by (simp add: Start_def Let_def on_cron_def cron_AddFunc_def split: option.splits prod.splits)

lemma stopped_all:
  assumes "wf_state x"
  shows "\<forall>c \<in> set (case cronTask x of
                       Some a \<Rightarrow> (crons x)[a := cron_Stop (crons x ! a)]
                     | None \<Rightarrow> crons x). \<not> running c"
proof
  let ?cs = "case cronTask x of
               Some a \<Rightarrow> (crons x)[a := cron_Stop (crons x ! a)]
             | None \<Rightarrow> crons x"
  fix c assume "c \<in> set ?cs"
  then obtain b where b: "b < length ?cs" "c = ?cs ! b" by (auto simp: in_set_conv_nth)
  show "\<not> running c"
  proof (cases "cronTask x")
    case None
    with b assms show ?thesis by (simp add: wf_state_def)
  next
    case (Some a)
    show ?thesis
    proof (cases "b = a")
      case True
      with b Some show ?thesis by (simp add: cron_Stop_def)
    next
      case False
      with b Some assms show ?thesis by (simp add: wf_state_def)
    qed
  qed
qed

lemma no_entries_of_stopped:
  "\<forall>c \<in> set cs. \<not> running c \<Longrightarrow>
     sum_list (map (\<lambda>c. if running c then length (entries c) else 0) cs) = 0
     \<and> filter running cs = []"
  by (induction cs) auto

lemma Start_wf:
  assumes "wf_state x"
  shows "wf_state (snd (Start P x))"
proof -
  let ?cs = "case cronTask x of
               Some a \<Rightarrow> (crons x)[a := cron_Stop (crons x ! a)]
             | None \<Rightarrow> crons x"
  have len: "length ?cs = length (crons x)" by (simp split: option.splits)
  have "\<forall>b < length (crons (snd (Start P x))).
          cronTask (snd (Start P x)) \<noteq> Some b \<longrightarrow> \<not> running (crons (snd (Start P x)) ! b)"
  proof (intro allI impI)
    fix b
    assume b: "b < length (crons (snd (Start P x)))"
      and nb: "cronTask (snd (Start P x)) \<noteq> Some b"
    from nb have "b \<noteq> length (crons x)" by (simp add: Start_cronTask)
    with b len have b': "b < length ?cs" by (simp add: Start_crons)
    then have "?cs ! b \<in> set ?cs" by (rule nth_mem)
    with stopped_all [OF assms] have "\<not> running (?cs ! b)" by blast
    with b' show "\<not> running (crons (snd (Start P x)) ! b)"
      by (simp add: Start_crons nth_append)
  qed
  moreover have "length (crons x) < length (crons (snd (Start P x)))"
    using len by (simp add: Start_crons)
  ultimately show ?thesis by (simp add: wf_state_def Start_cronTask)
qed

lemma Start_counts:
  assumes "wf_state x"
  shows "running_crons (snd (Start P x)) = 1"
    and "active_entries (snd (Start P x))
           = (if cron_Parse P (Interval x) = None then 1 else 0)"
proof -
  note z = no_entries_of_stopped [OF stopped_all [OF assms]]
  show "running_crons (snd (Start P x)) = 1"
    using z by (simp add: running_crons_def Start_crons cron_Start_def)
  show "active_entries (snd (Start P x))
           = (if cron_Parse P (Interval x) = None then 1 else 0)"
    using z by (simp add: active_entries_def Start_crons cron_Start_def cron_AddFunc_def
                  cron_New_def split: option.splits)
qed

lemma repeat_Start:
  assumes "wf_state x" and "0 < n"
  shows "wf_state (snd (repeat_op (Start P) n x))
       \<and> Interval (snd (repeat_op (Start P) n x)) = Interval x
       \<and> running_crons (snd (repeat_op (Start P) n x)) = 1
       \<and> active_entries (snd (repeat_op (Start P) n x))
           = (if cron_Parse P (Interval x) = None then 1 else 0)"
  using assms
proof (induction n arbitrary: x)
  case 0
  then show ?case by simp
next
  case (Suc n)
  obtain r x' where st: "Start P x = (r, x')" by (cases "Start P x")
  then have x': "x' = snd (Start P x)" by simp
  have wf': "wf_state x'" unfolding x' by (rule Start_wf [OF Suc.prems(1)])
  have iv: "Interval x' = Interval x" unfolding x' by (rule Start_Interval)
  have step: "snd (repeat_op (Start P) (Suc n) x) = snd (repeat_op (Start P) n x')"
    using st by (simp split: prod.splits)
  show ?case
  proof (cases n)
    case 0
    with step have "snd (repeat_op (Start P) (Suc n) x) = x'" by simp
    with wf' iv Start_counts [OF Suc.prems(1), of P] x' show ?thesis by simp
  next
    case (Suc m)
    then have "0 < n" by simp
    from Suc.IH [OF wf' this] iv step show ?thesis by simp
  qed
qed

text \<open>
  C7 (as stated). The claim has exactly one schedule entry active after any sequence of
  \<open>Start\<close> calls. When the scheduler rejects the interval expression, \<open>Start\<close> returns the
  error, registers nothing and still starts the new scheduler: no entry is active. This
  also happens to an adapter with a running schedule whose interval is then reconfigured
  to a rejected expression: \<open>Start\<close> stops the running schedule and leaves none.
\<close>

theorem Start_rejected_interval_no_entry:
  "fst (Start (mock_endpoint (Inl (Err ''EOF''))) (New\<lparr> Interval := ''every minute'' \<rparr>))
     = Some (Err ''bad interval'')
   \<and> active_entries
         (snd (Start (mock_endpoint (Inl (Err ''EOF''))) (New\<lparr> Interval := ''every minute'' \<rparr>)))
       = 0
   \<and> active_entries (snd (Start (mock_endpoint (Inl (Err ''EOF''))) New)) = 1
   \<and> active_entries
         (snd (Start (mock_endpoint (Inl (Err ''EOF'')))
                 ((snd (Start (mock_endpoint (Inl (Err ''EOF''))) New))
                    \<lparr> Interval := ''every minute'' \<rparr>)))
       = 0"
  by (simp add: Start_def New_def mock_endpoint_def active_entries_def on_cron_def
        SharedNode_IsInit_def SharedNode_InitWithClose_def cron_AddFunc_def cron_New_def
        cron_Start_def cron_Stop_def Let_def)

text \<open>
  C7 (amended). On an adapter in which no scheduler but the one \<open>cronTask\<close> points to is
  running (a freshly created adapter is one, and \<open>Start\<close> keeps it so), after any non-empty
  sequence of \<open>Start\<close> calls exactly one scheduler is running, and the number of active
  schedule entries is one when the scheduler accepts the interval expression and zero when
  it rejects it; \<open>Start\<close> returns the scheduler's verdict on the expression, and it leaves the
  scheduler that was current before the call stopped.
\<close>

theorem Start_schedule_count:
  assumes "wf_state x" and "0 < n"
  shows "running_crons (snd (repeat_op (Start P) n x)) = 1
       \<and> active_entries (snd (repeat_op (Start P) n x))
           = (if cron_Parse P (Interval x) = None then 1 else 0)
       \<and> wf_state (snd (repeat_op (Start P) n x))
       \<and> fst (Start P x) = cron_Parse P (Interval x)
       \<and> (\<forall>a. cronTask x = Some a \<longrightarrow> \<not> running (crons (snd (Start P x)) ! a))"
proof -
  have "\<forall>a. cronTask x = Some a \<longrightarrow> \<not> running (crons (snd (Start P x)) ! a)"
  proof (intro allI impI)
    fix a assume a: "cronTask x = Some a"
    with assms(1) have "a < length (crons x)" by (simp add: wf_state_def)
    with a show "\<not> running (crons (snd (Start P x)) ! a)"
      by (simp add: Start_crons nth_append cron_Stop_def)
  qed
  with repeat_Start [OF assms(1) assms(2), of P] Start_error [of P x] show ?thesis by simp
qed

theorem Start_schedule_count_witness:
  "wf_state New
   \<and> running_crons (snd (repeat_op (Start (mock_endpoint (Inl (Err ''EOF'')))) 3 New)) = 1
   \<and> active_entries (snd (repeat_op (Start (mock_endpoint (Inl (Err ''EOF'')))) 3 New)) = 1
   \<and> running_crons
        (snd (repeat_op (Start (mock_endpoint (Inl (Err ''EOF'')))) 2
                (New\<lparr> Interval := ''every minute'' \<rparr>))) = 1
   \<and> active_entries
        (snd (repeat_op (Start (mock_endpoint (Inl (Err ''EOF'')))) 2
                (New\<lparr> Interval := ''every minute'' \<rparr>))) = 0"
proof -
  let ?P = "mock_endpoint (Inl (Err ''EOF''))"
  let ?bad = "New\<lparr> Interval := ''every minute'' \<rparr>"
  have wf: "wf_state New" and wf': "wf_state ?bad" by (simp_all add: wf_state_def New_def)
  have ok: "cron_Parse ?P (Interval New) = None"
    and no: "cron_Parse ?P (Interval ?bad) \<noteq> None"
    by (simp_all add: mock_endpoint_def New_def)
  have three: "(0::nat) < 3" and two: "(0::nat) < 2" by simp_all
  from Start_schedule_count [OF wf three, of ?P] ok
  have a: "running_crons (snd (repeat_op (Start ?P) 3 New)) = 1"
    and b: "active_entries (snd (repeat_op (Start ?P) 3 New)) = 1" by simp_all
  from Start_schedule_count [OF wf' two, of ?P] no
  have c: "running_crons (snd (repeat_op (Start ?P) 2 ?bad)) = 1"
    and d: "active_entries (snd (repeat_op (Start ?P) 2 ?bad)) = 0" by simp_all
  from wf a b c d show ?thesis by blast
qed

end
